theory Spec2Isabelle
  imports Main "HOL-Library.Monad_Syntax"
begin

section \<open>Go strings, runes and the library functions the prompt calls\<close>

text \<open>
  A Go \<^verbatim>\<open>string\<close> is a sequence of bytes, and \<^verbatim>\<open>len\<close>, indexing and slicing of
  a string count bytes. \<^typ>\<open>string\<close> is a list of 8-bit characters, so it is used as
  the Go string type as it stands: \<^term>\<open>length s\<close> is \<^verbatim>\<open>len(s)\<close>. A \<^verbatim>\<open>rune\<close> is a
  signed 32-bit code point; it is modelled as an \<^typ>\<open>int\<close>. The conversions
  \<^verbatim>\<open>[]rune(s)\<close> and \<^verbatim>\<open>string(runes)\<close> decode and encode UTF-8 and are written out
  below after the Go runtime (\<^verbatim>\<open>unicode/utf8\<close>), since the prompt mixes byte offsets
  and rune offsets of the same line.

  A Go \<^verbatim>\<open>int\<close> is modelled as an unbounded \<^typ>\<open>int\<close>. Cursor coordinates and
  indices move within the length of a slice or string that exists, so they do not wrap; the
  one place where a configured value of any size enters the arithmetic, the scrolling of
  the popup, carries the 64-bit wrap-around explicitly (\<open>wrap64\<close>).
\<close>

type_synonym rune = int

definition RuneError :: rune where
  "RuneError = 0xFFFD"

text \<open>
  \<^verbatim>\<open>utf8.DecodeRune\<close>: the first rune of a byte sequence and its width in bytes. An
  invalid or truncated encoding yields \<open>(RuneError, 1)\<close>; the empty input
  \<open>(RuneError, 0)\<close>. The masks \<^verbatim>\<open>p0 & 0x1F\<close>, \<^verbatim>\<open>& 0x0F\<close>, \<^verbatim>\<open>& 0x07\<close>, \<^verbatim>\<open>& 0x3F\<close> are
  remainders, and the shifted parts do not overlap, so \<^verbatim>\<open>|\<close> is a sum.
\<close>

fun DecodeRune :: "nat list \<Rightarrow> rune \<times> nat" where
  "DecodeRune [] = (RuneError, 0)"
| "DecodeRune (p0 # ps) =
     (if p0 < 0x80 then (int p0, 1)
      else if p0 < 0xC2 \<or> 0xF4 < p0 then (RuneError, 1)
      else
        let sz = (if p0 < 0xE0 then 2 else if p0 < 0xF0 then 3 else (4::nat));
            lo = (if p0 = 0xE0 then 0xA0 else if p0 = 0xF0 then 0x90 else (0x80::nat));
            hi = (if p0 = 0xED then 0x9F else if p0 = 0xF4 then 0x8F else (0xBF::nat))
        in
          if length (p0 # ps) < sz then (RuneError, 1)
          else
            let b1 = ps ! 0 in
            if b1 < lo \<or> hi < b1 then (RuneError, 1)
            else if sz \<le> 2 then (int (p0 mod 32) * 64 + int (b1 mod 64), 2)
            else
              let b2 = ps ! 1 in
              if b2 < 0x80 \<or> 0xBF < b2 then (RuneError, 1)
              else if sz \<le> 3 then
                (int (p0 mod 16) * 4096 + int (b1 mod 64) * 64 + int (b2 mod 64), 3)
              else
                let b3 = ps ! 2 in
                if b3 < 0x80 \<or> 0xBF < b3 then (RuneError, 1)
                else
                  (int (p0 mod 8) * 262144 + int (b1 mod 64) * 4096
                     + int (b2 mod 64) * 64 + int (b3 mod 64), 4))"

lemma DecodeRune_width: "1 \<le> snd (DecodeRune (b # bs))"
  by (simp add: Let_def)

text \<open>The loop \<^verbatim>\<open>for _, r := range s\<close> over the bytes of a string.\<close>

function decodeRunes :: "nat list \<Rightarrow> rune list" where
  "decodeRunes [] = []"
| "decodeRunes (b # bs) =
     fst (DecodeRune (b # bs)) # decodeRunes (drop (snd (DecodeRune (b # bs))) (b # bs))"
  by pat_completeness auto
termination
proof (relation "measure length")
  show "wf (measure length)" by simp
next
  fix b :: nat and bs :: "nat list"
  have "1 \<le> snd (DecodeRune (b # bs))" by (rule DecodeRune_width)
  then show "(drop (snd (DecodeRune (b # bs))) (b # bs), b # bs) \<in> measure length"
    by simp
qed

text \<open>\<^verbatim>\<open>[]rune(s)\<close>.\<close>

definition runesOf :: "string \<Rightarrow> rune list" where
  "runesOf s = decodeRunes (map of_char s)"

text \<open>
  The runtime's \<^verbatim>\<open>encoderune\<close>: a rune outside the Unicode range (also a negative one,
  which is large as a \<^verbatim>\<open>uint32\<close>) or a surrogate is written as the encoding of
  \<open>RuneError\<close>.
\<close>

definition encodeRune :: "rune \<Rightarrow> string" where
  "encodeRune r =
     (if 0 \<le> r \<and> r \<le> 0x7F then [char_of r]
      else if 0 \<le> r \<and> r \<le> 0x7FF then
        [char_of (0xC0 + r div 64), char_of (0x80 + r mod 64)]
      else if r < 0 \<or> 0x10FFFF < r \<or> (0xD800 \<le> r \<and> r \<le> 0xDFFF) then
        [CHR 0xEF, CHR 0xBF, CHR 0xBD]
      else if r \<le> 0xFFFF then
        [char_of (0xE0 + r div 4096), char_of (0x80 + (r div 64) mod 64),
         char_of (0x80 + r mod 64)]
      else
        [char_of (0xF0 + r div 262144), char_of (0x80 + (r div 4096) mod 64),
         char_of (0x80 + (r div 64) mod 64), char_of (0x80 + r mod 64)])"

text \<open>\<^verbatim>\<open>string(runes)\<close>.\<close>

definition stringOf :: "rune list \<Rightarrow> string" where
  "stringOf rs = concat (map encodeRune rs)"

text \<open>
  \<^verbatim>\<open>unicode.IsSpace\<close>: the Latin-1 white space listed in its source, and the code points
  with the property White_Space above Latin-1.
\<close>

definition IsSpace :: "rune \<Rightarrow> bool" where
  "IsSpace r \<longleftrightarrow>
     r \<in> {0x09, 0x0A, 0x0B, 0x0C, 0x0D, 0x20, 0x85, 0xA0, 0x1680,
          0x2028, 0x2029, 0x202F, 0x205F, 0x3000}
     \<or> (0x2000 \<le> r \<and> r \<le> 0x200A)"

text \<open>The table \<^verbatim>\<open>asciiSpace\<close> of package \<^verbatim>\<open>strings\<close>.\<close>

definition asciiSpace :: "nat \<Rightarrow> bool" where
  "asciiSpace c \<longleftrightarrow> c \<in> {0x09, 0x0A, 0x0B, 0x0C, 0x0D, 0x20}"

text \<open>
  \<^verbatim>\<open>utf8.DecodeLastRune\<close>: it steps back at most three bytes to a byte that can start a
  rune (\<^verbatim>\<open>RuneStart\<close>: not a continuation byte \<^verbatim>\<open>10xxxxxx\<close>), decodes forward from there,
  and accepts the rune only when it ends exactly at the end of the input.
\<close>

definition RuneStart :: "nat \<Rightarrow> bool" where
  "RuneStart b \<longleftrightarrow> b div 64 \<noteq> 2"

fun lastRuneStart :: "nat list \<Rightarrow> int \<Rightarrow> int \<Rightarrow> nat \<Rightarrow> int" where
  "lastRuneStart p start lim 0 = start"
| "lastRuneStart p start lim (Suc k) =
     (if start \<ge> lim then
        (if RuneStart (p ! nat start) then start else lastRuneStart p (start - 1) lim k)
      else start)"

definition lastStart :: "nat list \<Rightarrow> int" where
  "lastStart p =
     (let end = int (length p);
          lim = max (end - 4) 0;
          start = lastRuneStart p (end - 2) lim 4
      in if start < 0 then 0 else start)"

definition DecodeLastRune :: "nat list \<Rightarrow> rune \<times> nat" where
  "DecodeLastRune p =
     (if p = [] then (RuneError, 0)
      else if last p < 0x80 then (int (last p), 1)
      else
        let rs = DecodeRune (drop (nat (lastStart p)) p)
        in if lastStart p + int (snd rs) \<noteq> int (length p) then (RuneError, 1) else rs)"

text \<open>
  \<^verbatim>\<open>strings.TrimLeftFunc(s, unicode.IsSpace)\<close> on the bytes: \<^verbatim>\<open>indexFunc\<close> walks the runes
  from the left up to the first one that is not white space.
\<close>

function trimLeftSpace :: "nat list \<Rightarrow> nat list" where
  "trimLeftSpace [] = []"
| "trimLeftSpace (b # bs) =
     (if IsSpace (fst (DecodeRune (b # bs)))
      then trimLeftSpace (drop (snd (DecodeRune (b # bs))) (b # bs))
      else b # bs)"
  by pat_completeness auto
termination
proof (relation "measure length")
  show "wf (measure length)" by simp
next
  fix b :: nat and bs :: "nat list"
  have "1 \<le> snd (DecodeRune (b # bs))" by (rule DecodeRune_width)
  then show "(drop (snd (DecodeRune (b # bs))) (b # bs), b # bs) \<in> measure length"
    by simp
qed

lemma lastRuneStart_le: "lastRuneStart p start lim k \<le> start"
proof (induction k arbitrary: start)
  case 0
  show ?case by simp
next
  case (Suc k)
  have "lastRuneStart p (start - 1) lim k \<le> start - 1" by (rule Suc.IH)
  then have "lastRuneStart p (start - 1) lim k \<le> start" by simp
  then show ?case by simp
qed

lemma lastStart_less: "p \<noteq> [] \<Longrightarrow> lastStart p < int (length p)"
proof -
  assume ne: "p \<noteq> []"
  have "lastRuneStart p (int (length p) - 2) (max (int (length p) - 4) 0) 4
          \<le> int (length p) - 2"
    by (rule lastRuneStart_le)
  then show ?thesis using ne by (simp add: lastStart_def Let_def)
qed

lemma DecodeLastRune_width: "p \<noteq> [] \<Longrightarrow> 1 \<le> snd (DecodeLastRune p)"
proof -
  assume ne: "p \<noteq> []"
  define rs where "rs = DecodeRune (drop (nat (lastStart p)) p)"
  have lt: "lastStart p < int (length p)" using ne by (rule lastStart_less)
  show ?thesis
  proof (cases "last p < 0x80 \<or> lastStart p + int (snd rs) \<noteq> int (length p)")
    case True
    then show ?thesis using ne by (auto simp: DecodeLastRune_def Let_def rs_def)
  next
    case False
    then have "int (snd rs) = int (length p) - lastStart p" by simp
    then have "1 \<le> snd rs" using lt by linarith
    then show ?thesis using False ne by (simp add: DecodeLastRune_def Let_def rs_def)
  qed
qed

text \<open>
  \<^verbatim>\<open>lastIndexFunc(s, unicode.IsSpace, false)\<close>, with the loop variable \<open>i\<close> as an
  argument: the byte offset of the last rune that is not white space, or \<open>-1\<close>. The loop
  starts at \<open>i = len(s)\<close> and only decreases \<open>i\<close>, so \<^verbatim>\<open>s[0:i]\<close> is empty exactly when
  \<open>i = 0\<close>.
\<close>

function lastIndexNotSpace :: "nat list \<Rightarrow> nat \<Rightarrow> int" where
  "lastIndexNotSpace s i =
     (if i = 0 \<or> take i s = [] then -1
      else if \<not> IsSpace (fst (DecodeLastRune (take i s)))
        then int i - int (snd (DecodeLastRune (take i s)))
      else lastIndexNotSpace s (i - snd (DecodeLastRune (take i s))))"
  by pat_completeness auto
termination
proof (relation "measure snd")
  show "wf (measure snd)" by simp
next
  fix s :: "nat list" and i :: nat
  assume "\<not> (i = 0 \<or> take i s = [])"
  then have pos: "0 < i" and ne: "take i s \<noteq> []" by simp_all
  have "1 \<le> snd (DecodeLastRune (take i s))" using ne by (rule DecodeLastRune_width)
  with pos have "0 < i" and "1 \<le> snd (DecodeLastRune (take i s))" by simp_all
  then show "((s, i - snd (DecodeLastRune (take i s))), (s, i)) \<in> measure snd"
    by simp
qed

declare lastIndexNotSpace.simps [simp del]

text \<open>\<^verbatim>\<open>strings.TrimRightFunc(s, unicode.IsSpace)\<close>.\<close>

definition trimRightSpace :: "nat list \<Rightarrow> nat list" where
  "trimRightSpace s =
     (let i = lastIndexNotSpace s (length s) in
      if 0 \<le> i \<and> 0x80 \<le> s ! nat i
      then take (nat i + snd (DecodeRune (drop (nat i) s))) s
      else take (nat (i + 1)) s)"

text \<open>
  The second loop of \<^verbatim>\<open>strings.TrimSpace\<close>, from the end of the input: ASCII white space
  is cut off, and the first byte that is not ASCII hands over to \<open>trimRightSpace\<close>.
\<close>

function trimTail :: "nat list \<Rightarrow> nat list" where
  "trimTail s =
     (if s = [] then []
      else if 0x80 \<le> last s then trimRightSpace s
      else if asciiSpace (last s) then trimTail (butlast s)
      else s)"
  by pat_completeness auto
termination
  by (relation "measure length") auto

declare trimTail.simps [simp del]

text \<open>
  The first loop of \<^verbatim>\<open>strings.TrimSpace\<close>, from the start: the first byte that is not
  ASCII hands the rest over to \<^verbatim>\<open>TrimFunc\<close>, which trims on the left and then on the
  right.
\<close>

fun trimBytes :: "nat list \<Rightarrow> nat list" where
  "trimBytes [] = []"
| "trimBytes (c # cs) =
     (if 0x80 \<le> c then trimRightSpace (trimLeftSpace (c # cs))
      else if asciiSpace c then trimBytes cs
      else trimTail (c # cs))"

text \<open>\<^verbatim>\<open>strings.TrimSpace\<close>, \<^verbatim>\<open>strings.HasSuffix\<close>, \<^verbatim>\<open>strings.Join(_, "\n")\<close> and
  \<^verbatim>\<open>strings.Split(_, "\n")\<close>.\<close>

definition TrimSpace :: "string \<Rightarrow> string" where
  "TrimSpace s = map char_of (trimBytes (map of_char s))"

definition HasSuffix :: "string \<Rightarrow> string \<Rightarrow> bool" where
  "HasSuffix s suffix \<longleftrightarrow>
     length suffix \<le> length s \<and> drop (length s - length suffix) s = suffix"

definition newline :: char where
  "newline = CHR 0x0A"

fun Join :: "string list \<Rightarrow> string" where
  "Join [] = []"
| "Join [x] = x"
| "Join (x # y # ys) = x @ [newline] @ Join (y # ys)"

function Split :: "string \<Rightarrow> string list" where
  "Split s =
     (if newline \<in> set s
      then takeWhile (\<lambda>c. c \<noteq> newline) s # Split (tl (dropWhile (\<lambda>c. c \<noteq> newline) s))
      else [s])"
  by pat_completeness auto
termination
proof (relation "measure length")
  show "wf (measure length)" by simp
next
  fix s :: string
  assume "newline \<in> set s"
  then have "dropWhile (\<lambda>c. c \<noteq> newline) s \<noteq> []" by simp
  moreover have "length (dropWhile (\<lambda>c. c \<noteq> newline) s) \<le> length s"
    by (rule length_dropWhile_le)
  ultimately show "(tl (dropWhile (\<lambda>c. c \<noteq> newline) s), s) \<in> measure length"
    by (cases "dropWhile (\<lambda>c. c \<noteq> newline) s") auto
qed

declare Split.simps [simp del]

section \<open>Slices and panics\<close>

text \<open>
  Indexing and slicing outside the bounds panic in Go. A function of the prompt that can
  panic returns an \<^typ>\<open>'a option\<close>, with \<open>None\<close> for the panic. \<open>index xs i\<close> is
  \<^verbatim>\<open>xs[i]\<close>, \<open>sliceTo s j\<close> is \<^verbatim>\<open>s[:j]\<close>, \<open>sliceFrom s i\<close> is \<^verbatim>\<open>s[i:]\<close> and
  \<open>slice s i j\<close> is \<^verbatim>\<open>s[i:j]\<close>.
\<close>

definition index :: "'a list \<Rightarrow> int \<Rightarrow> 'a option" where
  "index xs i = (if 0 \<le> i \<and> i < int (length xs) then Some (xs ! nat i) else None)"

definition slice :: "'a list \<Rightarrow> int \<Rightarrow> int \<Rightarrow> 'a list option" where
  "slice s i j =
     (if 0 \<le> i \<and> i \<le> j \<and> j \<le> int (length s)
      then Some (take (nat j - nat i) (drop (nat i) s)) else None)"

definition sliceTo :: "'a list \<Rightarrow> int \<Rightarrow> 'a list option" where
  "sliceTo s j = slice s 0 j"

definition sliceFrom :: "'a list \<Rightarrow> int \<Rightarrow> 'a list option" where
  "sliceFrom s i = slice s i (int (length s))"

section \<open>The prompt model\<close>

record Suggestion =
  Text :: string
  Description :: string

text \<open>
  \<^verbatim>\<open>PromptConfig\<close>, without the prompt strings and styles, which only \<^verbatim>\<open>View\<close> reads.
  \<^verbatim>\<open>AutoCompleteFn\<close> and \<^verbatim>\<open>ExecuteFn\<close> may be \<^verbatim>\<open>nil\<close> and the code tests them, so they
  are options. \<^verbatim>\<open>NewPromptModel\<close> replaces a \<^verbatim>\<open>nil\<close> \<^verbatim>\<open>IsCompleteFn\<close> or
  \<^verbatim>\<open>IsWordCharFn\<close> by its default before it builds the model, and the fields of the model
  are unexported, so in a model these two are functions. The callbacks are taken to be
  functions of their arguments.
\<close>

record PromptConfig =
  AutoCompleteFn :: "(string \<Rightarrow> string \<Rightarrow> Suggestion list) option"
  ExecuteFn :: "(string \<Rightarrow> string) option"
  IsCompleteFn :: "string \<Rightarrow> bool"
  IsWordCharFn :: "rune \<Rightarrow> bool"
  PopupMaxHeight :: int

definition DefaultIsComplete :: "string \<Rightarrow> bool" where
  "DefaultIsComplete input = HasSuffix (TrimSpace input) '';''"

text \<open>
  \<^verbatim>\<open>DefaultIsWordChar\<close>; \<^verbatim>\<open>unicode.IsLetter\<close> and \<^verbatim>\<open>unicode.IsDigit\<close> are tables of
  the Go library and are parameters here.
\<close>

definition DefaultIsWordChar :: "(rune \<Rightarrow> bool) \<Rightarrow> (rune \<Rightarrow> bool) \<Rightarrow> rune \<Rightarrow> bool" where
  "DefaultIsWordChar IsLetter IsDigit r \<longleftrightarrow>
     IsLetter r \<or> IsDigit r \<or> r = 0x5F \<or> r = 0x2E"

text \<open>
  \<^verbatim>\<open>PromptModel\<close>. The last two fields are not in the Go struct: they record, oldest
  first, the arguments of every call of \<^verbatim>\<open>ExecuteFn\<close> and of \<^verbatim>\<open>AutoCompleteFn\<close>, so that
  "the callback is called once, with this input" can be stated.
\<close>

record PromptModel =
  config :: PromptConfig
  lines :: "string list"
  cursorRow :: int
  cursorCol :: int
  history :: "string list"
  historyIndex :: int
  suggestions :: "Suggestion list"
  showPopup :: bool
  selectedSuggestionIndex :: int
  lastSuggestedWord :: string
  popupScrollOffset :: int
  lastOutput :: string
  executeCalls :: "string list"
  autoCompleteCalls :: "(string \<times> string) list"

definition NewPromptModel :: "PromptConfig \<Rightarrow> PromptModel" where
  "NewPromptModel cfg =
     \<lparr>config = cfg\<lparr>PopupMaxHeight :=
                  (if PopupMaxHeight cfg \<le> 0 then 6 else PopupMaxHeight cfg)\<rparr>,
      lines = [''''], cursorRow = 0, cursorCol = 0,
      history = [], historyIndex = -1,
      suggestions = [], showPopup = False, selectedSuggestionIndex = 0,
      lastSuggestedWord = '''', popupScrollOffset = 0, lastOutput = '''',
      executeCalls = [], autoCompleteCalls = []\<rparr>"

datatype KeyType =
  KeyCtrlC | KeyEsc | KeyEnter | KeyBackspace | KeyTab | KeyUp | KeyDown | KeyLeft
  | KeyRight | KeySpace | KeyRunes | KeyOther

record KeyMsg =
  Type :: KeyType
  Runes :: "rune list"

datatype Msg = Key KeyMsg | OtherMsg

datatype Cmd = NoCmd | Quit

subsection \<open>Editing the line buffer\<close>

definition clearLastOutputOnEdit :: "KeyType \<Rightarrow> PromptModel \<Rightarrow> PromptModel" where
  "clearLastOutputOnEdit keyType m =
     (if keyType \<in> {KeyBackspace, KeyRunes, KeySpace, KeyUp, KeyDown, KeyLeft, KeyRight}
      then m\<lparr>lastOutput := ''''\<rparr> else m)"

definition insertRunes :: "rune list \<Rightarrow> PromptModel \<Rightarrow> PromptModel option" where
  "insertRunes runes m =
     (let printableRunes = filter (\<lambda>r. r \<ge> 0x20) runes in
      if length printableRunes = 0 then Some m
      else do {
        line \<leftarrow> index (lines m) (cursorRow m);
        left \<leftarrow> sliceTo line (cursorCol m);
        right \<leftarrow> sliceFrom line (cursorCol m);
        Some (m\<lparr>lines := (lines m)[nat (cursorRow m) := left @ stringOf printableRunes @ right],
                cursorCol := cursorCol m + int (length printableRunes),
                historyIndex := -1\<rparr>)
      })"

definition insertCharacter :: "rune \<Rightarrow> PromptModel \<Rightarrow> PromptModel option" where
  "insertCharacter r m = insertRunes [r] m"

definition deleteBeforeCursor :: "PromptModel \<Rightarrow> PromptModel option" where
  "deleteBeforeCursor m =
     (if cursorCol m > 0 then do {
        line \<leftarrow> index (lines m) (cursorRow m);
        left \<leftarrow> sliceTo line (cursorCol m - 1);
        right \<leftarrow> sliceFrom line (cursorCol m);
        Some (m\<lparr>lines := (lines m)[nat (cursorRow m) := left @ right],
                cursorCol := cursorCol m - 1\<rparr>)
      }
      else if cursorRow m > 0 then do {
        prevLine \<leftarrow> index (lines m) (cursorRow m - 1);
        currentLine \<leftarrow> index (lines m) (cursorRow m);
        let targetCol = int (length prevLine);
            merged = (lines m)[nat (cursorRow m - 1) := prevLine @ currentLine]
        in Some (m\<lparr>lines := take (nat (cursorRow m)) merged @ drop (nat (cursorRow m + 1)) merged,
                   cursorRow := cursorRow m - 1,
                   cursorCol := targetCol\<rparr>)
      }
      else Some m)"

text \<open>The loop of \<^verbatim>\<open>cleanupExtraBlankLines\<close> on the lines.\<close>

function cleanupLines :: "string list \<Rightarrow> string list" where
  "cleanupLines ls =
     (if length ls > 1
         \<and> TrimSpace (ls ! (length ls - 1)) = ''''
         \<and> TrimSpace (ls ! (length ls - 2)) = ''''
      then cleanupLines (take (length ls - 1) ls)
      else ls)"
  by pat_completeness auto
termination
  by (relation "measure length") auto

declare cleanupLines.simps [simp del]

definition cleanupExtraBlankLines :: "PromptModel \<Rightarrow> PromptModel" where
  "cleanupExtraBlankLines m = m\<lparr>lines := cleanupLines (lines m)\<rparr>"

definition insertNewline :: "PromptModel \<Rightarrow> PromptModel option" where
  "insertNewline m = do {
     currentLine \<leftarrow> index (lines m) (cursorRow m);
     left \<leftarrow> sliceTo currentLine (cursorCol m);
     right \<leftarrow> sliceFrom currentLine (cursorCol m);
     let newLines = take (nat (cursorRow m)) (lines m) @ [left] @ [right]
           @ (if cursorRow m + 1 < int (length (lines m))
              then drop (nat (cursorRow m + 1)) (lines m) else []);
         m1 = cleanupExtraBlankLines
                (m\<lparr>lines := newLines, cursorRow := cursorRow m + 1, cursorCol := 0\<rparr>)
     in Some
          (if cursorRow m1 \<ge> int (length (lines m1)) \<and> length (lines m1) > 0
           then m1\<lparr>cursorRow := int (length (lines m1)) - 1\<rparr>
           else if length (lines m1) = 0 then m1\<lparr>lines := [''''], cursorRow := 0\<rparr>
           else m1)
   }"

definition moveCursorUp :: "PromptModel \<Rightarrow> PromptModel option" where
  "moveCursorUp m =
     (if cursorRow m > 0 then do {
        line \<leftarrow> index (lines m) (cursorRow m - 1);
        Some (if cursorCol m > int (length line)
              then m\<lparr>cursorRow := cursorRow m - 1, cursorCol := int (length line)\<rparr>
              else m\<lparr>cursorRow := cursorRow m - 1\<rparr>)
      }
      else Some m)"

definition moveCursorDown :: "PromptModel \<Rightarrow> PromptModel option" where
  "moveCursorDown m =
     (if cursorRow m < int (length (lines m)) - 1 then do {
        line \<leftarrow> index (lines m) (cursorRow m + 1);
        Some (if cursorCol m > int (length line)
              then m\<lparr>cursorRow := cursorRow m + 1, cursorCol := int (length line)\<rparr>
              else m\<lparr>cursorRow := cursorRow m + 1\<rparr>)
      }
      else Some m)"

definition moveCursorLeft :: "PromptModel \<Rightarrow> PromptModel option" where
  "moveCursorLeft m =
     (if cursorCol m > 0 then Some (m\<lparr>cursorCol := cursorCol m - 1\<rparr>)
      else if cursorRow m > 0 then do {
        line \<leftarrow> index (lines m) (cursorRow m - 1);
        Some (m\<lparr>cursorRow := cursorRow m - 1, cursorCol := int (length line)\<rparr>)
      }
      else Some m)"

definition moveCursorRight :: "PromptModel \<Rightarrow> PromptModel option" where
  "moveCursorRight m = do {
     line \<leftarrow> index (lines m) (cursorRow m);
     Some (if cursorCol m < int (length line) then m\<lparr>cursorCol := cursorCol m + 1\<rparr>
           else if cursorRow m < int (length (lines m)) - 1
             then m\<lparr>cursorRow := cursorRow m + 1, cursorCol := 0\<rparr>
           else m)
   }"

definition getTextBeforeCursor :: "PromptModel \<Rightarrow> string" where
  "getTextBeforeCursor m =
     (if cursorRow m < 0 \<or> cursorRow m \<ge> int (length (lines m)) then ''''
      else
        concat (map (\<lambda>l. l @ [newline]) (take (nat (cursorRow m)) (lines m)))
        @ (if cursorCol m > 0
           then let runes = runesOf (lines m ! nat (cursorRow m));
                    col = min (cursorCol m) (int (length runes))
                in stringOf (take (nat col) runes)
           else ''''))"

subsection \<open>Suggestions\<close>

text \<open>
  The loop \<^verbatim>\<open>for start > 0 { if isWordCharFn(runes[start-1]) { start-- } else { break } }\<close>
  of \<^verbatim>\<open>currentWordFragment\<close> and \<^verbatim>\<open>applyAutocomplete\<close>, which panics when \<open>start\<close> is
  beyond the runes.
\<close>

function scanWordStart :: "(rune \<Rightarrow> bool) \<Rightarrow> rune list \<Rightarrow> int \<Rightarrow> int option" where
  "scanWordStart isWordCharFn runes start =
     (if start > 0 then
        (case index runes (start - 1) of
           None \<Rightarrow> None
         | Some r \<Rightarrow>
             if isWordCharFn r then scanWordStart isWordCharFn runes (start - 1)
             else Some start)
      else Some start)"
  by pat_completeness auto
termination
  by (relation "measure (\<lambda>(f, runes, start). nat start)") auto

declare scanWordStart.simps [simp del]

definition currentWordFragment :: "(rune \<Rightarrow> bool) \<Rightarrow> PromptModel \<Rightarrow> string option" where
  "currentWordFragment isWordCharFn m =
     (if cursorRow m \<ge> int (length (lines m)) then Some ''''
      else do {
        line \<leftarrow> index (lines m) (cursorRow m);
        if cursorCol m = 0 then Some ''''
        else
          let lineRunes = runesOf line in
          if cursorCol m > int (length lineRunes) then Some ''''
          else do {
            start \<leftarrow> scanWordStart isWordCharFn lineRunes (cursorCol m);
            if start < cursorCol m \<and> cursorCol m > 0 then do {
              r \<leftarrow> index lineRunes (cursorCol m - 1);
              if isWordCharFn r then do {
                fragment \<leftarrow> slice lineRunes start (cursorCol m);
                Some (stringOf fragment)
              }
              else Some ''''
            }
            else Some ''''
          }
      })"

definition clearAutocomplete :: "PromptModel \<Rightarrow> PromptModel" where
  "clearAutocomplete m =
     m\<lparr>suggestions := [], showPopup := False, selectedSuggestionIndex := 0,
       lastSuggestedWord := '''', popupScrollOffset := 0\<rparr>"

text \<open>The flag \<^verbatim>\<open>clear\<close> that \<^verbatim>\<open>updateAutocomplete\<close> computes from the fragment.\<close>

definition updateClear :: "string \<Rightarrow> PromptModel \<Rightarrow> bool option" where
  "updateClear word m =
     (if word = '''' then Some True
      else if cursorCol m > 0 \<and> cursorRow m < int (length (lines m)) then do {
        line \<leftarrow> index (lines m) (cursorRow m);
        let lineRunes = runesOf line in
        if cursorCol m \<le> int (length lineRunes) then do {
          r \<leftarrow> index lineRunes (cursorCol m - 1);
          Some (\<not> IsWordCharFn (config m) r)
        }
        else Some True
      }
      else if cursorCol m = 0 then Some True
      else Some False)"

definition updateAutocomplete :: "PromptModel \<Rightarrow> PromptModel option" where
  "updateAutocomplete m = do {
     word \<leftarrow> currentWordFragment (IsWordCharFn (config m)) m;
     clear \<leftarrow> updateClear word m;
     if clear then Some (clearAutocomplete m)
     else if word \<noteq> lastSuggestedWord m then
       let m1 = m\<lparr>selectedSuggestionIndex := 0, popupScrollOffset := 0\<rparr>;
           m2 = (case AutoCompleteFn (config m1) of
                   Some acFn \<Rightarrow>
                     let textBefore = getTextBeforeCursor m1 in
                     m1\<lparr>suggestions := acFn textBefore word,
                        autoCompleteCalls := autoCompleteCalls m1 @ [(textBefore, word)]\<rparr>
                 | None \<Rightarrow> m1\<lparr>suggestions := []\<rparr>)
       in Some (m2\<lparr>showPopup := (length (suggestions m2) > 0), lastSuggestedWord := word\<rparr>)
     else if length (suggestions m) = 0 then Some (m\<lparr>showPopup := False\<rparr>)
     else Some m
   }"

text \<open>
  Arithmetic of a Go \<^verbatim>\<open>int\<close> on a 64-bit platform wraps around. The selected index moves
  by one inside a slice, where it cannot wrap; the configured \<^verbatim>\<open>PopupMaxHeight\<close> can be any
  \<^verbatim>\<open>int\<close>, so the sums and differences it enters are wrapped.
\<close>

definition wrap64 :: "int \<Rightarrow> int" where
  "wrap64 x = (x + 2 ^ 63) mod 2 ^ 64 - 2 ^ 63"

definition navigateAutocompleteUp :: "PromptModel \<Rightarrow> PromptModel" where
  "navigateAutocompleteUp m =
     (if showPopup m \<and> length (suggestions m) > 0 then
        let sel = selectedSuggestionIndex m - 1 in
        if sel < 0 then
          m\<lparr>selectedSuggestionIndex := int (length (suggestions m)) - 1,
            popupScrollOffset :=
              max 0 (wrap64 (int (length (suggestions m)) - PopupMaxHeight (config m)))\<rparr>
        else if sel < popupScrollOffset m then
          m\<lparr>selectedSuggestionIndex := sel, popupScrollOffset := sel\<rparr>
        else m\<lparr>selectedSuggestionIndex := sel\<rparr>
      else m)"

definition navigateAutocompleteDown :: "PromptModel \<Rightarrow> PromptModel" where
  "navigateAutocompleteDown m =
     (if showPopup m \<and> length (suggestions m) > 0 then
        let sel = selectedSuggestionIndex m + 1 in
        if sel \<ge> int (length (suggestions m)) then
          m\<lparr>selectedSuggestionIndex := 0, popupScrollOffset := 0\<rparr>
        else if sel \<ge> wrap64 (popupScrollOffset m + PopupMaxHeight (config m)) then
          m\<lparr>selectedSuggestionIndex := sel,
            popupScrollOffset := wrap64 (wrap64 (sel - PopupMaxHeight (config m)) + 1)\<rparr>
        else m\<lparr>selectedSuggestionIndex := sel\<rparr>
      else m)"

text \<open>
  \<^verbatim>\<open>applyAutocomplete\<close>. The local \<^verbatim>\<open>col\<close> that the Go code corrects when it is beyond
  the runes is not read afterwards, so the correction leaves no trace here.
\<close>

definition applyAutocomplete :: "PromptModel \<Rightarrow> PromptModel option" where
  "applyAutocomplete m =
     (if showPopup m \<and> length (suggestions m) > 0 then do {
        selectedSuggestion \<leftarrow> index (suggestions m) (selectedSuggestionIndex m);
        line \<leftarrow> index (lines m) (cursorRow m);
        let selectedText = Text selectedSuggestion;
            col = cursorCol m;
            runes = runesOf line
        in do {
          scanned \<leftarrow> scanWordStart (IsWordCharFn (config m)) runes col;
          let start = (if scanned < 0 then 0 else scanned) in do {
            prefix \<leftarrow> sliceTo runes start;
            suffix \<leftarrow> (if col < int (length runes) then sliceFrom runes col else Some []);
            Some (clearAutocomplete
                    (m\<lparr>lines := (lines m)[nat (cursorRow m) :=
                                    stringOf prefix @ selectedText @ stringOf suffix],
                       cursorCol := start + int (length selectedText)\<rparr>))
          }
        }
      }
      else Some m)"

subsection \<open>History\<close>

definition loadHistoryEntry :: "PromptModel \<Rightarrow> PromptModel" where
  "loadHistoryEntry m =
     (if historyIndex m \<ge> 0 \<and> historyIndex m < int (length (history m)) then
        let ls = Split (history m ! nat (historyIndex m));
            row = (if int (length ls) - 1 < 0 then 0 else int (length ls) - 1);
            m1 = m\<lparr>lines := ls, cursorRow := row\<rparr>;
            m2 = (if length ls > 0 then m1\<lparr>cursorCol := int (length (ls ! nat row))\<rparr>
                  else m1\<lparr>lines := [''''], cursorRow := 0, cursorCol := 0\<rparr>)
        in clearAutocomplete m2
      else m)"

definition navigateHistoryUp :: "PromptModel \<Rightarrow> PromptModel" where
  "navigateHistoryUp m =
     (if length (history m) = 0 then m
      else if historyIndex m = -1 then
        loadHistoryEntry (m\<lparr>historyIndex := int (length (history m)) - 1\<rparr>)
      else if historyIndex m > 0 then
        loadHistoryEntry (m\<lparr>historyIndex := historyIndex m - 1\<rparr>)
      else m)"

definition navigateHistoryDown :: "PromptModel \<Rightarrow> PromptModel" where
  "navigateHistoryDown m =
     (if historyIndex m = -1 then m
      else if historyIndex m < int (length (history m)) - 1 then
        loadHistoryEntry (m\<lparr>historyIndex := historyIndex m + 1\<rparr>)
      else
        clearAutocomplete
          (m\<lparr>historyIndex := -1, lines := [''''], cursorRow := 0, cursorCol := 0\<rparr>))"

subsection \<open>Submission\<close>

text \<open>The loop of \<^verbatim>\<open>joinNonEmptyLines\<close>: the end of the lines that are kept.\<close>

fun nonEmptyEnd :: "string list \<Rightarrow> nat \<Rightarrow> nat" where
  "nonEmptyEnd ls 0 = 0"
| "nonEmptyEnd ls (Suc e) = (if TrimSpace (ls ! e) \<noteq> '''' then Suc e else nonEmptyEnd ls e)"

definition joinNonEmptyLines :: "string list \<Rightarrow> string" where
  "joinNonEmptyLines ls = Join (take (nonEmptyEnd ls (length ls)) ls)"

definition getCurrentInput :: "PromptModel \<Rightarrow> string" where
  "getCurrentInput m = joinNonEmptyLines (lines m)"

text \<open>
  \<^verbatim>\<open>fmt.Sprintf("\n--- Executing ---\n%s\n-----------------\n", output)\<close> and the
  fixed text shown without an \<^verbatim>\<open>ExecuteFn\<close>.
\<close>

definition executingOutput :: "string \<Rightarrow> string" where
  "executingOutput output =
     [newline] @ ''--- Executing ---'' @ [newline] @ output @ [newline]
       @ ''-----------------'' @ [newline]"

definition noExecuteFnOutput :: string where
  "noExecuteFnOutput = [newline] @ ''--- No ExecuteFn Configured ---'' @ [newline]"

definition handleEnter :: "PromptModel \<Rightarrow> PromptModel option" where
  "handleEnter m =
     (let fullInput = getCurrentInput m;
          isComplete = IsCompleteFn (config m) fullInput
      in
        if isComplete \<and> TrimSpace fullInput \<noteq> '';'' then
          let m1 = (case ExecuteFn (config m) of
                      Some execFn \<Rightarrow>
                        m\<lparr>lastOutput := executingOutput (execFn fullInput),
                          executeCalls := executeCalls m @ [fullInput]\<rparr>
                    | None \<Rightarrow> m\<lparr>lastOutput := noExecuteFnOutput\<rparr>);
              m2 = (if TrimSpace fullInput \<noteq> ''''
                    then m1\<lparr>history := history m1 @ [fullInput]\<rparr> else m1)
          in Some (clearAutocomplete
                     (m2\<lparr>lines := [''''], cursorRow := 0, cursorCol := 0,
                         historyIndex := -1\<rparr>))
        else do {
          m1 \<leftarrow> insertNewline m;
          Some (clearAutocomplete m1)
        })"

subsection \<open>Key presses\<close>

definition handleBackspace :: "PromptModel \<Rightarrow> PromptModel option" where
  "handleBackspace m = deleteBeforeCursor m"

definition handleAutocompleteTab :: "PromptModel \<Rightarrow> PromptModel option" where
  "handleAutocompleteTab m = applyAutocomplete m"

definition handleUpArrow :: "PromptModel \<Rightarrow> PromptModel option" where
  "handleUpArrow m =
     (if showPopup m then Some (navigateAutocompleteUp m)
      else if cursorRow m = 0 then Some (navigateHistoryUp m)
      else moveCursorUp m)"

definition handleDownArrow :: "PromptModel \<Rightarrow> PromptModel option" where
  "handleDownArrow m =
     (if showPopup m then Some (navigateAutocompleteDown m)
      else if historyIndex m \<noteq> -1 then Some (navigateHistoryDown m)
      else moveCursorDown m)"

text \<open>
  \<^verbatim>\<open>handleKeyPress\<close> returns the model and a command: \<open>Quit\<close> for \<^verbatim>\<open>tea.Quit\<close>, \<open>NoCmd\<close>
  for \<^verbatim>\<open>nil\<close>.
\<close>

definition handleKeyPress :: "KeyMsg \<Rightarrow> PromptModel \<Rightarrow> (PromptModel \<times> Cmd) option" where
  "handleKeyPress msg m0 =
     (let m = (if Type msg \<noteq> KeyEnter then clearLastOutputOnEdit (Type msg) m0 else m0) in
      case Type msg of
        KeyCtrlC \<Rightarrow> Some (m, Quit)
      | KeyEsc \<Rightarrow> Some (m, Quit)
      | KeyEnter \<Rightarrow> do { m1 \<leftarrow> handleEnter m; Some (m1, NoCmd) }
      | KeyBackspace \<Rightarrow> do {
          m1 \<leftarrow> handleBackspace m; m2 \<leftarrow> updateAutocomplete m1; Some (m2, NoCmd) }
      | KeyTab \<Rightarrow> do { m1 \<leftarrow> handleAutocompleteTab m; Some (m1, NoCmd) }
      | KeyUp \<Rightarrow> do { m1 \<leftarrow> handleUpArrow m; Some (m1, NoCmd) }
      | KeyDown \<Rightarrow> do { m1 \<leftarrow> handleDownArrow m; Some (m1, NoCmd) }
      | KeyLeft \<Rightarrow> do { m1 \<leftarrow> moveCursorLeft m; Some (clearAutocomplete m1, NoCmd) }
      | KeyRight \<Rightarrow> do { m1 \<leftarrow> moveCursorRight m; Some (clearAutocomplete m1, NoCmd) }
      | KeySpace \<Rightarrow> do {
          m1 \<leftarrow> insertCharacter 0x20 m; m2 \<leftarrow> updateAutocomplete m1; Some (m2, NoCmd) }
      | KeyRunes \<Rightarrow> do {
          m1 \<leftarrow> insertRunes (Runes msg) m; m2 \<leftarrow> updateAutocomplete m1; Some (m2, NoCmd) }
      | KeyOther \<Rightarrow> Some (m, NoCmd))"

definition Update :: "Msg \<Rightarrow> PromptModel \<Rightarrow> (PromptModel \<times> Cmd) option" where
  "Update msg m = (case msg of Key k \<Rightarrow> handleKeyPress k m | OtherMsg \<Rightarrow> Some (m, NoCmd))"

text \<open>
  A sequence of messages delivered to the model, one after the other; the commands are
  dropped. A panic ends the run.
\<close>

fun run :: "Msg list \<Rightarrow> PromptModel \<Rightarrow> PromptModel option" where
  "run [] m = Some m"
| "run (msg # msgs) m =
     (case Update msg m of None \<Rightarrow> None | Some (m1, cmd) \<Rightarrow> run msgs m1)"

section \<open>A sample configuration and messages\<close>

text \<open>
  Concrete inputs for the examples below. The classifier is \<^verbatim>\<open>DefaultIsWordChar\<close> with the
  letters and digits of Latin-1, which is what \<^verbatim>\<open>unicode.IsLetter\<close> and
  \<^verbatim>\<open>unicode.IsDigit\<close> are on the runes up to U+00FF; the provider always suggests the
  two-byte text U+00E9; the execution callback returns its input; the completeness
  predicate is the default one.
\<close>

definition latin1Letter :: "rune \<Rightarrow> bool" where
  "latin1Letter r \<longleftrightarrow>
     (0x41 \<le> r \<and> r \<le> 0x5A) \<or> (0x61 \<le> r \<and> r \<le> 0x7A)
     \<or> r = 0xAA \<or> r = 0xB5 \<or> r = 0xBA
     \<or> (0xC0 \<le> r \<and> r \<le> 0xD6) \<or> (0xD8 \<le> r \<and> r \<le> 0xF6)
     \<or> (0xF8 \<le> r \<and> r \<le> 0xFF)"

definition latin1Digit :: "rune \<Rightarrow> bool" where
  "latin1Digit r \<longleftrightarrow> 0x30 \<le> r \<and> r \<le> 0x39"

definition sampleConfig :: PromptConfig where
  "sampleConfig =
     \<lparr>AutoCompleteFn =
        Some (\<lambda>textBefore word. [\<lparr>Text = [CHR 0xC3, CHR 0xA9], Description = ''''\<rparr>]),
      ExecuteFn = Some (\<lambda>input. input),
      IsCompleteFn = DefaultIsComplete,
      IsWordCharFn = DefaultIsWordChar latin1Letter latin1Digit,
      PopupMaxHeight = 6\<rparr>"

definition typed :: "rune list \<Rightarrow> Msg" where
  "typed rs = Key \<lparr>Type = KeyRunes, Runes = rs\<rparr>"

definition pressed :: "KeyType \<Rightarrow> Msg" where
  "pressed t = Key \<lparr>Type = t, Runes = []\<rparr>"

text \<open>A new prompt of the sample configuration holding the given lines and cursor.\<close>

definition sampleModel :: "string list \<Rightarrow> int \<Rightarrow> int \<Rightarrow> PromptModel" where
  "sampleModel ls row col =
     (NewPromptModel sampleConfig)\<lparr>lines := ls, cursorRow := row, cursorCol := col\<rparr>"

section \<open>Well-formed models\<close>

text \<open>
  What the operations keep true of the buffer, in the unit the code itself uses for the
  column when it slices a line: the row is an index of \<open>lines\<close> and the column is a byte
  offset within the line of the cursor.
\<close>

definition bufferValid :: "PromptModel \<Rightarrow> bool" where
  "bufferValid m \<longleftrightarrow>
     0 \<le> cursorRow m \<and> cursorRow m < int (length (lines m))
     \<and> 0 \<le> cursorCol m \<and> cursorCol m \<le> int (length (lines m ! nat (cursorRow m)))"

text \<open>
  While the popup is shown there are suggestions, the selected index is one of them, the
  column is within the runes of the line (the fragment was found there), and the last
  output has been cleared.
\<close>

definition popupValid :: "PromptModel \<Rightarrow> bool" where
  "popupValid m \<longleftrightarrow>
     (showPopup m \<longrightarrow>
        suggestions m \<noteq> []
        \<and> 0 \<le> selectedSuggestionIndex m
        \<and> selectedSuggestionIndex m < int (length (suggestions m))
        \<and> cursorCol m \<le> int (length (runesOf (lines m ! nat (cursorRow m))))
        \<and> lastOutput m = '''')"

definition modelValid :: "PromptModel \<Rightarrow> bool" where
  "modelValid m \<longleftrightarrow> bufferValid m \<and> popupValid m"

text \<open>An operation on the buffer that leaves the popup and the last output alone.\<close>

definition popupKept :: "PromptModel \<Rightarrow> PromptModel \<Rightarrow> bool" where
  "popupKept m m' \<longleftrightarrow>
     config m' = config m \<and> suggestions m' = suggestions m \<and> showPopup m' = showPopup m
     \<and> selectedSuggestionIndex m' = selectedSuggestionIndex m
     \<and> lastOutput m' = lastOutput m"

text \<open>A sequence of calls of \<^verbatim>\<open>navigateAutocompleteUp\<close> and \<^verbatim>\<open>navigateAutocompleteDown\<close>.\<close>

datatype Navigation = NavigateUp | NavigateDown

fun navigate :: "Navigation list \<Rightarrow> PromptModel \<Rightarrow> PromptModel" where
  "navigate [] m = m"
| "navigate (NavigateUp # ns) m = navigate ns (navigateAutocompleteUp m)"
| "navigate (NavigateDown # ns) m = navigate ns (navigateAutocompleteDown m)"

text \<open>
  The selection is inside the window, the window is inside the list, and the offset is
  never beyond the last full window.
\<close>

definition scrollCoupled :: "PromptModel \<Rightarrow> bool" where
  "scrollCoupled m \<longleftrightarrow>
     0 \<le> popupScrollOffset m
     \<and> popupScrollOffset m \<le> selectedSuggestionIndex m
     \<and> selectedSuggestionIndex m < int (length (suggestions m))
     \<and> selectedSuggestionIndex m < popupScrollOffset m + PopupMaxHeight (config m)
     \<and> popupScrollOffset m \<le> max 0 (int (length (suggestions m)) - PopupMaxHeight (config m))"

text \<open>The window height and the number of suggestions are values of a Go \<^verbatim>\<open>int\<close>.\<close>

definition heightInRange :: "PromptModel \<Rightarrow> bool" where
  "heightInRange m \<longleftrightarrow>
     0 < PopupMaxHeight (config m) \<and> PopupMaxHeight (config m) < 2 ^ 63
     \<and> int (length (suggestions m)) < 2 ^ 63"

text \<open>
  The run of word runes that ends at column \<open>c\<close>: the longest suffix of the first \<open>c\<close> runes
  on which the classifier holds.
\<close>

definition wordRun :: "(rune \<Rightarrow> bool) \<Rightarrow> rune list \<Rightarrow> nat \<Rightarrow> rune list" where
  "wordRun f rs c = rev (takeWhile f (rev (take c rs)))"

section \<open>Lemmas about slices, strings and the operations\<close>

lemma index_Some [simp]: "0 \<le> i \<Longrightarrow> i < int (length xs) \<Longrightarrow> index xs i = Some (xs ! nat i)"
  by (simp add: index_def)

lemma index_eq_Some: "index xs i = Some x \<longleftrightarrow> 0 \<le> i \<and> i < int (length xs) \<and> x = xs ! nat i"
  by (auto simp: index_def)

lemma sliceTo_Some [simp]: "0 \<le> j \<Longrightarrow> j \<le> int (length s) \<Longrightarrow> sliceTo s j = Some (take (nat j) s)"
  by (simp add: sliceTo_def slice_def)

lemma sliceFrom_Some [simp]: "0 \<le> i \<Longrightarrow> i \<le> int (length s) \<Longrightarrow> sliceFrom s i = Some (drop (nat i) s)"
  by (simp add: sliceFrom_def slice_def)

lemma encodeRune_nonempty: "encodeRune r \<noteq> []"
  by (simp add: encodeRune_def)

lemma stringOf_eq_Nil [simp]: "stringOf rs = [] \<longleftrightarrow> rs = []"
  by (cases rs) (simp_all add: stringOf_def encodeRune_nonempty)

lemma length_stringOf: "length rs \<le> length (stringOf rs)"
proof (induction rs)
  case Nil
  show ?case by (simp add: stringOf_def)
next
  case (Cons r rs)
  have "1 \<le> length (encodeRune r)"
    using encodeRune_nonempty [of r] by (cases "encodeRune r") simp_all
  then show ?case using Cons by (simp add: stringOf_def)
qed

lemma bufferValidE:
  assumes "bufferValid m"
  obtains i c where "cursorRow m = int i" and "i < length (lines m)"
    and "cursorCol m = int c" and "c \<le> length (lines m ! i)"
proof -
  have "cursorRow m = int (nat (cursorRow m))" "nat (cursorRow m) < length (lines m)"
    "cursorCol m = int (nat (cursorCol m))"
    "nat (cursorCol m) \<le> length (lines m ! nat (cursorRow m))"
    using assms by (auto simp: bufferValid_def nat_less_iff nat_le_iff)
  then show ?thesis by (rule that)
qed

lemma bufferValidI:
  "cursorRow m = int i \<Longrightarrow> i < length (lines m) \<Longrightarrow> cursorCol m = int c
     \<Longrightarrow> c \<le> length (lines m ! i) \<Longrightarrow> bufferValid m"
  by (simp add: bufferValid_def)

lemma insertRunes_valid:
  assumes "bufferValid m"
  shows "\<exists>m'. insertRunes rs m = Some m' \<and> bufferValid m' \<and> popupKept m m'"
proof (cases "filter (\<lambda>r. r \<ge> 0x20) rs = []")
  case True
  then show ?thesis using assms by (simp add: insertRunes_def popupKept_def)
next
  case False
  obtain i c where ic: "cursorRow m = int i" "i < length (lines m)"
      "cursorCol m = int c" "c \<le> length (lines m ! i)"
    using assms by (rule bufferValidE)
  have "length (filter (\<lambda>r. r \<ge> 0x20) rs) \<le> length (stringOf (filter (\<lambda>r. r \<ge> 0x20) rs))"
    by (rule length_stringOf)
  then show ?thesis
    using ic False
    by (simp add: insertRunes_def bufferValid_def popupKept_def Let_def)
qed

lemma deleteBeforeCursor_valid:
  assumes "bufferValid m"
  shows "\<exists>m'. deleteBeforeCursor m = Some m' \<and> bufferValid m' \<and> popupKept m m'"
proof -
  obtain i c where ic: "cursorRow m = int i" "i < length (lines m)"
      "cursorCol m = int c" "c \<le> length (lines m ! i)"
    using assms by (rule bufferValidE)
  show ?thesis
  proof (cases c)
    case (Suc c')
    then show ?thesis
      using ic by (simp add: deleteBeforeCursor_def bufferValid_def popupKept_def)
  next
    case 0
    show ?thesis
    proof (cases i)
      case 0
      then show ?thesis
        using ic \<open>c = 0\<close> assms by (simp add: deleteBeforeCursor_def popupKept_def)
    next
      case (Suc i')
      then show ?thesis
        using ic \<open>c = 0\<close>
        by (simp add: deleteBeforeCursor_def bufferValid_def popupKept_def Let_def nth_append
            nat_add_distrib)
    qed
  qed
qed

lemma cleanupLines_nonempty: "ls \<noteq> [] \<Longrightarrow> cleanupLines ls \<noteq> []"
proof (induction ls rule: cleanupLines.induct)
  case (1 ls)
  show ?case
  proof (cases "length ls > 1 \<and> TrimSpace (ls ! (length ls - 1)) = ''''
      \<and> TrimSpace (ls ! (length ls - 2)) = ''''")
    case True
    then have "take (length ls - 1) ls \<noteq> []" by (cases ls) auto
    then have "cleanupLines (take (length ls - 1) ls) \<noteq> []" using True by (intro "1.IH") auto
    then show ?thesis using True by (subst cleanupLines.simps) simp
  next
    case False
    then show ?thesis using "1.prems" by (subst cleanupLines.simps) auto
  qed
qed

lemma cleanupLines_length_pos: "ls \<noteq> [] \<Longrightarrow> 0 < length (cleanupLines ls)"
  using cleanupLines_nonempty [of ls] by simp

lemma insertNewline_valid:
  assumes "bufferValid m"
  shows "\<exists>m'. insertNewline m = Some m' \<and> bufferValid m' \<and> popupKept m m'
            \<and> history m' = history m \<and> executeCalls m' = executeCalls m"
proof -
  obtain i c where ic: "cursorRow m = int i" "i < length (lines m)"
      "cursorCol m = int c" "c \<le> length (lines m ! i)"
    using assms by (rule bufferValidE)
  show ?thesis
    using ic
    by (auto simp: insertNewline_def Let_def cleanupExtraBlankLines_def bufferValid_def
        popupKept_def cleanupLines_nonempty cleanupLines_length_pos)
qed

lemma insertNewline_lines:
  assumes "bufferValid m" and "insertNewline m = Some m1"
  shows "lines m1 =
     cleanupLines
       (take (nat (cursorRow m)) (lines m)
        @ [take (nat (cursorCol m)) (lines m ! nat (cursorRow m)),
           drop (nat (cursorCol m)) (lines m ! nat (cursorRow m))]
        @ drop (nat (cursorRow m) + 1) (lines m))"
proof -
  obtain i c where ic: "cursorRow m = int i" "i < length (lines m)"
      "cursorCol m = int c" "c \<le> length (lines m ! i)"
    using assms(1) by (rule bufferValidE)
  have d: "(if int i + 1 < int (length (lines m)) then drop (nat (int i + 1)) (lines m) else [])
      = drop (i + 1) (lines m)"
    by (simp add: nat_add_distrib)
  show ?thesis
    using ic assms(2) d
    by (auto simp: insertNewline_def Let_def cleanupExtraBlankLines_def cleanupLines_nonempty
        split: if_splits)
qed

lemma moveCursorUp_valid:
  assumes "bufferValid m"
  shows "\<exists>m'. moveCursorUp m = Some m' \<and> bufferValid m' \<and> popupKept m m'"
proof -
  obtain i c where ic: "cursorRow m = int i" "i < length (lines m)"
      "cursorCol m = int c" "c \<le> length (lines m ! i)"
    using assms by (rule bufferValidE)
  show ?thesis
  proof (cases i)
    case 0
    then show ?thesis using ic assms by (simp add: moveCursorUp_def popupKept_def)
  next
    case (Suc i')
    then show ?thesis
      using ic by (simp add: moveCursorUp_def bufferValid_def popupKept_def)
  qed
qed

lemma moveCursorDown_valid:
  assumes "bufferValid m"
  shows "\<exists>m'. moveCursorDown m = Some m' \<and> bufferValid m' \<and> popupKept m m'"
proof -
  obtain i c where ic: "cursorRow m = int i" "i < length (lines m)"
      "cursorCol m = int c" "c \<le> length (lines m ! i)"
    using assms by (rule bufferValidE)
  show ?thesis
  proof (cases "int i < int (length (lines m)) - 1")
    case True
    then have "nat (int i + 1) = i + 1" "i + 1 < length (lines m)" by simp_all
    then show ?thesis
      using ic True by (simp add: moveCursorDown_def bufferValid_def popupKept_def)
  next
    case False
    then show ?thesis using ic assms by (simp add: moveCursorDown_def popupKept_def)
  qed
qed

lemma moveCursorLeft_valid:
  assumes "bufferValid m"
  shows "\<exists>m'. moveCursorLeft m = Some m' \<and> bufferValid m' \<and> popupKept m m'"
proof -
  obtain i c where ic: "cursorRow m = int i" "i < length (lines m)"
      "cursorCol m = int c" "c \<le> length (lines m ! i)"
    using assms by (rule bufferValidE)
  show ?thesis
  proof (cases c)
    case (Suc c')
    then show ?thesis using ic by (simp add: moveCursorLeft_def bufferValid_def popupKept_def)
  next
    case 0
    then show ?thesis
      using ic assms by (cases i) (simp_all add: moveCursorLeft_def bufferValid_def popupKept_def)
  qed
qed

lemma moveCursorRight_valid:
  assumes "bufferValid m"
  shows "\<exists>m'. moveCursorRight m = Some m' \<and> bufferValid m' \<and> popupKept m m'"
proof -
  obtain i c where ic: "cursorRow m = int i" "i < length (lines m)"
      "cursorCol m = int c" "c \<le> length (lines m ! i)"
    using assms by (rule bufferValidE)
  have "int i < int (length (lines m)) - 1 \<Longrightarrow> nat (int i + 1) < length (lines m)"
    by simp
  then show ?thesis
    using ic assms by (auto simp: moveCursorRight_def bufferValid_def popupKept_def)
qed

lemma Split_nonempty: "Split s \<noteq> []"
  by (subst Split.simps) simp

lemma loadHistoryEntry_valid:
  assumes "bufferValid m"
  shows "bufferValid (loadHistoryEntry m) \<and> (\<not> showPopup m \<longrightarrow> \<not> showPopup (loadHistoryEntry m))
         \<and> lastOutput (loadHistoryEntry m) = lastOutput m"
proof (cases "historyIndex m \<ge> 0 \<and> historyIndex m < int (length (history m))")
  case True
  define ls where "ls = Split (history m ! nat (historyIndex m))"
  have "ls \<noteq> []" unfolding ls_def by (rule Split_nonempty)
  then have "0 < length ls" by simp
  then show ?thesis
    using True
    by (simp add: loadHistoryEntry_def Let_def ls_def [symmetric] clearAutocomplete_def
        bufferValid_def nat_diff_distrib)
next
  case False
  then show ?thesis using assms by (auto simp: loadHistoryEntry_def)
qed

lemma bufferValid_historyIndex [simp]:
  "bufferValid (m\<lparr>historyIndex := h\<rparr>) = bufferValid m"
  by (simp add: bufferValid_def)

lemma navigateHistoryUp_valid:
  assumes "bufferValid m"
  shows "bufferValid (navigateHistoryUp m)
         \<and> (\<not> showPopup m \<longrightarrow> \<not> showPopup (navigateHistoryUp m))
         \<and> lastOutput (navigateHistoryUp m) = lastOutput m"
proof -
  have "\<And>h. bufferValid (m\<lparr>historyIndex := h\<rparr>)" using assms by simp
  then have "\<And>h. bufferValid (loadHistoryEntry (m\<lparr>historyIndex := h\<rparr>))
      \<and> (\<not> showPopup (m\<lparr>historyIndex := h\<rparr>)
           \<longrightarrow> \<not> showPopup (loadHistoryEntry (m\<lparr>historyIndex := h\<rparr>)))
      \<and> lastOutput (loadHistoryEntry (m\<lparr>historyIndex := h\<rparr>))
           = lastOutput (m\<lparr>historyIndex := h\<rparr>)"
    by (rule loadHistoryEntry_valid)
  then show ?thesis using assms by (simp add: navigateHistoryUp_def)
qed

lemma navigateHistoryDown_valid:
  assumes "bufferValid m"
  shows "bufferValid (navigateHistoryDown m)
         \<and> (\<not> showPopup m \<longrightarrow> \<not> showPopup (navigateHistoryDown m))
         \<and> lastOutput (navigateHistoryDown m) = lastOutput m"
proof -
  have "\<And>h. bufferValid (m\<lparr>historyIndex := h\<rparr>)" using assms by simp
  then have "\<And>h. bufferValid (loadHistoryEntry (m\<lparr>historyIndex := h\<rparr>))
      \<and> (\<not> showPopup (m\<lparr>historyIndex := h\<rparr>)
           \<longrightarrow> \<not> showPopup (loadHistoryEntry (m\<lparr>historyIndex := h\<rparr>)))
      \<and> lastOutput (loadHistoryEntry (m\<lparr>historyIndex := h\<rparr>))
           = lastOutput (m\<lparr>historyIndex := h\<rparr>)"
    by (rule loadHistoryEntry_valid)
  then show ?thesis
    using assms by (simp add: navigateHistoryDown_def clearAutocomplete_def bufferValid_def)
qed

lemma scanWordStart_Some:
  "0 \<le> c \<Longrightarrow> c \<le> int (length rs) \<Longrightarrow>
     \<exists>s. scanWordStart f rs c = Some s \<and> 0 \<le> s \<and> s \<le> c"
proof (induction f rs c rule: scanWordStart.induct)
  case (1 f rs c)
  show ?case
  proof (cases "c > 0")
    case False
    then show ?thesis using "1.prems" by (subst scanWordStart.simps) simp
  next
    case True
    then have ix: "index rs (c - 1) = Some (rs ! nat (c - 1))"
      using "1.prems" by simp
    show ?thesis
    proof (cases "f (rs ! nat (c - 1))")
      case False
      then show ?thesis using True ix by (subst scanWordStart.simps) simp
    next
      case fr: True
      have "\<exists>s. scanWordStart f rs (c - 1) = Some s \<and> 0 \<le> s \<and> s \<le> c - 1"
        using True ix fr "1.prems" by (intro "1.IH") auto
      then show ?thesis using True ix fr by (subst scanWordStart.simps) auto
    qed
  qed
qed

lemma slice_Some [simp]:
  "0 \<le> i \<Longrightarrow> i \<le> j \<Longrightarrow> j \<le> int (length s) \<Longrightarrow>
     slice s i j = Some (take (nat j - nat i) (drop (nat i) s))"
  by (simp add: slice_def)

lemma currentWordFragment_Some:
  assumes "bufferValid m"
  shows "\<exists>word. currentWordFragment f m = Some word"
proof -
  define rs where "rs = runesOf (lines m ! nat (cursorRow m))"
  have ix: "index (lines m) (cursorRow m) = Some (lines m ! nat (cursorRow m))"
    using assms by (simp add: bufferValid_def)
  show ?thesis
  proof (cases "cursorCol m = 0 \<or> cursorCol m > int (length rs)")
    case True
    then show ?thesis using ix assms
      by (auto simp: currentWordFragment_def Let_def rs_def bufferValid_def)
  next
    case False
    then have c: "0 \<le> cursorCol m" "cursorCol m \<le> int (length rs)" "0 < cursorCol m"
      using assms by (simp_all add: bufferValid_def)
    obtain s where s: "scanWordStart f rs (cursorCol m) = Some s" "0 \<le> s" "s \<le> cursorCol m"
      using scanWordStart_Some [OF c(1,2)] by blast
    show ?thesis
      using ix False c s assms
      by (simp add: currentWordFragment_def Let_def rs_def [symmetric] bufferValid_def)
  qed
qed

lemma currentWordFragment_nonempty:
  assumes "currentWordFragment f m = Some word" and "word \<noteq> ''''"
  shows "0 \<le> cursorRow m \<and> cursorRow m < int (length (lines m))
         \<and> 0 < cursorCol m
         \<and> cursorCol m \<le> int (length (runesOf (lines m ! nat (cursorRow m))))
         \<and> f (runesOf (lines m ! nat (cursorRow m)) ! nat (cursorCol m - 1))"
  using assms
  by (auto simp: currentWordFragment_def Let_def index_eq_Some
      split: if_splits Option.bind_splits)

lemma updateClear_nonempty:
  assumes "currentWordFragment (IsWordCharFn (config m)) m = Some word" and "word \<noteq> ''''"
  shows "updateClear word m = Some False"
proof -
  note c = currentWordFragment_nonempty [OF assms]
  then show ?thesis using assms(2) by (simp add: updateClear_def Let_def)
qed

lemma updateClear_empty: "updateClear '''' m = Some True"
  by (simp add: updateClear_def)

text \<open>
  After an edit the popup fields are those of the state before it; the update brings the
  popup back in line with the buffer.
\<close>

lemma updateAutocomplete_valid:
  assumes "bufferValid m" and "lastOutput m = ''''"
    and "showPopup m \<longrightarrow> suggestions m \<noteq> [] \<and> 0 \<le> selectedSuggestionIndex m
           \<and> selectedSuggestionIndex m < int (length (suggestions m))"
  shows "\<exists>m'. updateAutocomplete m = Some m' \<and> bufferValid m' \<and> popupValid m'
           \<and> lines m' = lines m \<and> lastOutput m' = ''''"
proof -
  obtain word where w: "currentWordFragment (IsWordCharFn (config m)) m = Some word"
    using currentWordFragment_Some [OF assms(1)] by blast
  show ?thesis
  proof (cases "word = ''''")
    case True
    then show ?thesis
      using w assms(1,2)
      by (simp add: updateAutocomplete_def updateClear_empty clearAutocomplete_def
          bufferValid_def popupValid_def)
  next
    case False
    note c = currentWordFragment_nonempty [OF w False]
    have clear: "updateClear word m = Some False" using w False by (rule updateClear_nonempty)
    show ?thesis
      using w clear c assms
      by (cases "AutoCompleteFn (config m)")
        (auto simp: updateAutocomplete_def Let_def bufferValid_def popupValid_def)
  qed
qed

lemma applyAutocomplete_valid:
  assumes "bufferValid m" and "popupValid m"
  shows "\<exists>m'. applyAutocomplete m = Some m' \<and> bufferValid m' \<and> popupValid m'
           \<and> lastOutput m' = lastOutput m
           \<and> (\<not> showPopup m \<longrightarrow> m' = m)"
proof (cases "showPopup m \<and> length (suggestions m) > 0")
  case False
  then show ?thesis using assms by (auto simp: applyAutocomplete_def)
next
  case True
  obtain i c where ic: "cursorRow m = int i" "i < length (lines m)"
      "cursorCol m = int c" "c \<le> length (lines m ! i)"
    using assms(1) by (rule bufferValidE)
  define rs where "rs = runesOf (lines m ! i)"
  have pv: "0 \<le> selectedSuggestionIndex m"
      "selectedSuggestionIndex m < int (length (suggestions m))" "c \<le> length rs"
    using assms(2) True ic by (simp_all add: popupValid_def rs_def)
  obtain s where s: "scanWordStart (IsWordCharFn (config m)) rs (int c) = Some s"
      "0 \<le> s" "s \<le> int c"
    using scanWordStart_Some [of "int c" rs] pv(3) by auto
  have "length (take (nat s) rs) \<le> length (stringOf (take (nat s) rs))"
    by (rule length_stringOf)
  then have le: "s \<le> int (length (stringOf (take (nat s) rs)))"
    using s pv(3) by simp
  show ?thesis
    using True ic pv s le
    by (simp add: applyAutocomplete_def Let_def rs_def [symmetric] clearAutocomplete_def
        bufferValid_def popupValid_def)
qed

lemma navigateAutocompleteUp_valid:
  assumes "bufferValid m" and "popupValid m"
  shows "bufferValid (navigateAutocompleteUp m) \<and> popupValid (navigateAutocompleteUp m)
         \<and> lines (navigateAutocompleteUp m) = lines m
         \<and> lastOutput (navigateAutocompleteUp m) = lastOutput m"
  using assms
  by (auto simp: navigateAutocompleteUp_def Let_def bufferValid_def popupValid_def)

lemma navigateAutocompleteDown_valid:
  assumes "bufferValid m" and "popupValid m"
  shows "bufferValid (navigateAutocompleteDown m) \<and> popupValid (navigateAutocompleteDown m)
         \<and> lines (navigateAutocompleteDown m) = lines m
         \<and> lastOutput (navigateAutocompleteDown m) = lastOutput m"
  using assms
  by (auto simp: navigateAutocompleteDown_def Let_def bufferValid_def popupValid_def)

lemma clearAutocomplete_valid:
  "bufferValid m \<Longrightarrow> modelValid (clearAutocomplete m)"
  by (simp add: modelValid_def bufferValid_def popupValid_def clearAutocomplete_def)

lemma clearAutocomplete_frame:
  "lines (clearAutocomplete m) = lines m \<and> lastOutput (clearAutocomplete m) = lastOutput m"
  by (simp add: clearAutocomplete_def)

lemma handleEnter_valid:
  assumes "bufferValid m"
  shows "\<exists>m'. handleEnter m = Some m' \<and> modelValid m'"
proof (cases "IsCompleteFn (config m) (getCurrentInput m)
    \<and> TrimSpace (getCurrentInput m) \<noteq> '';''")
  case True
  then show ?thesis
    by (cases "ExecuteFn (config m)")
      (simp_all add: handleEnter_def Let_def clearAutocomplete_def modelValid_def
        bufferValid_def popupValid_def)
next
  case False
  obtain m1 where m1: "insertNewline m = Some m1" "bufferValid m1"
    using insertNewline_valid [OF assms] by blast
  have "handleEnter m = Some (clearAutocomplete m1)"
    using False m1(1) by (auto simp: handleEnter_def Let_def)
  then show ?thesis using m1(2) by (simp add: clearAutocomplete_valid)
qed

text \<open>An edit followed by \<^verbatim>\<open>updateAutocomplete\<close>, after the last output has been cleared.\<close>

lemma edit_then_update_valid:
  assumes "modelValid m" and "lastOutput m = ''''"
    and "\<exists>m1. edit m = Some m1 \<and> bufferValid m1 \<and> popupKept m m1"
  shows "\<exists>m2. Option.bind (edit m) updateAutocomplete = Some m2 \<and> modelValid m2
           \<and> lastOutput m2 = ''''"
proof -
  obtain m1 where m1: "edit m = Some m1" "bufferValid m1" "popupKept m m1"
    using assms(3) by blast
  have out: "lastOutput m1 = ''''" using m1(3) assms(2) by (simp add: popupKept_def)
  have sel: "showPopup m1 \<longrightarrow> suggestions m1 \<noteq> [] \<and> 0 \<le> selectedSuggestionIndex m1
      \<and> selectedSuggestionIndex m1 < int (length (suggestions m1))"
    using m1(3) assms(1) by (simp add: popupKept_def modelValid_def popupValid_def)
  obtain m2 where "updateAutocomplete m1 = Some m2" "bufferValid m2" "popupValid m2"
      "lastOutput m2 = ''''"
    using updateAutocomplete_valid [OF m1(2) out sel] by blast
  then show ?thesis using m1(1) by (simp add: modelValid_def)
qed

lemma handleUpArrow_valid:
  assumes "modelValid m"
  shows "\<exists>m'. handleUpArrow m = Some m' \<and> modelValid m' \<and> lastOutput m' = lastOutput m"
proof -
  have b: "bufferValid m" and p: "popupValid m" using assms by (simp_all add: modelValid_def)
  show ?thesis
  proof (cases "showPopup m")
    case True
    then show ?thesis
      using navigateAutocompleteUp_valid [OF b p] by (simp add: handleUpArrow_def modelValid_def)
  next
    case False
    show ?thesis
    proof (cases "cursorRow m = 0")
      case True
      then show ?thesis
        using False navigateHistoryUp_valid [OF b]
        by (simp add: handleUpArrow_def modelValid_def popupValid_def)
    next
      case r: False
      obtain m' where "moveCursorUp m = Some m'" "bufferValid m'" "popupKept m m'"
        using moveCursorUp_valid [OF b] by blast
      then show ?thesis
        using False r by (simp add: handleUpArrow_def modelValid_def popupValid_def popupKept_def)
    qed
  qed
qed

lemma handleDownArrow_valid:
  assumes "modelValid m"
  shows "\<exists>m'. handleDownArrow m = Some m' \<and> modelValid m' \<and> lastOutput m' = lastOutput m"
proof -
  have b: "bufferValid m" and p: "popupValid m" using assms by (simp_all add: modelValid_def)
  show ?thesis
  proof (cases "showPopup m")
    case True
    then show ?thesis
      using navigateAutocompleteDown_valid [OF b p]
      by (simp add: handleDownArrow_def modelValid_def)
  next
    case False
    show ?thesis
    proof (cases "historyIndex m \<noteq> -1")
      case True
      then show ?thesis
        using False navigateHistoryDown_valid [OF b]
        by (simp add: handleDownArrow_def modelValid_def popupValid_def)
    next
      case r: False
      obtain m' where "moveCursorDown m = Some m'" "bufferValid m'" "popupKept m m'"
        using moveCursorDown_valid [OF b] by blast
      then show ?thesis
        using False r
        by (simp add: handleDownArrow_def modelValid_def popupValid_def popupKept_def)
    qed
  qed
qed

lemma modelValid_clearOutput: "modelValid m \<Longrightarrow> modelValid (m\<lparr>lastOutput := ''''\<rparr>)"
  by (simp add: modelValid_def bufferValid_def popupValid_def)

text \<open>
  One key press from a valid model: it does not panic, the model stays valid, and unless
  the key is Enter the last output is empty afterwards or the lines are those of before.
\<close>

lemma handleKeyPress_valid:
  assumes "modelValid m"
  shows "\<exists>m' cmd. handleKeyPress k m = Some (m', cmd) \<and> modelValid m'
           \<and> (Type k = KeyEnter \<or> lastOutput m' = '''' \<or> lines m' = lines m)"
proof -
  define mc where "mc = m\<lparr>lastOutput := ''''\<rparr>"
  have vc: "modelValid mc" unfolding mc_def using assms by (rule modelValid_clearOutput)
  have bc: "bufferValid mc" and oc: "lastOutput mc = ''''"
    using vc by (simp_all add: modelValid_def mc_def)
  have b: "bufferValid m" and p: "popupValid m" using assms by (simp_all add: modelValid_def)
  show ?thesis
  proof (cases "Type k")
    case KeyCtrlC
    then show ?thesis using assms by (simp add: handleKeyPress_def clearLastOutputOnEdit_def)
  next
    case KeyEsc
    then show ?thesis using assms by (simp add: handleKeyPress_def clearLastOutputOnEdit_def)
  next
    case KeyEnter
    then show ?thesis
      using handleEnter_valid [OF b] by (auto simp: handleKeyPress_def)
  next
    case KeyBackspace
    obtain m2 where "Option.bind (deleteBeforeCursor mc) updateAutocomplete = Some m2"
        "modelValid m2" "lastOutput m2 = ''''"
      using edit_then_update_valid [where edit = deleteBeforeCursor, OF vc oc
          deleteBeforeCursor_valid [OF bc]]
      by blast
    then show ?thesis
      using KeyBackspace
      by (auto simp: handleKeyPress_def clearLastOutputOnEdit_def handleBackspace_def
          mc_def [symmetric] split: Option.bind_splits)
  next
    case KeyTab
    obtain m' where "applyAutocomplete m = Some m'" "modelValid m'"
        "lastOutput m' = lastOutput m" "\<not> showPopup m \<longrightarrow> m' = m"
      using applyAutocomplete_valid [OF b p] by (auto simp: modelValid_def)
    then show ?thesis
      using KeyTab p
      by (cases "showPopup m")
        (auto simp: handleKeyPress_def clearLastOutputOnEdit_def handleAutocompleteTab_def
          popupValid_def)
  next
    case KeyUp
    obtain m' where "handleUpArrow mc = Some m'" "modelValid m'" "lastOutput m' = lastOutput mc"
      using handleUpArrow_valid [OF vc] by blast
    then show ?thesis
      using KeyUp oc by (simp add: handleKeyPress_def clearLastOutputOnEdit_def mc_def [symmetric])
  next
    case KeyDown
    obtain m' where "handleDownArrow mc = Some m'" "modelValid m'" "lastOutput m' = lastOutput mc"
      using handleDownArrow_valid [OF vc] by blast
    then show ?thesis
      using KeyDown oc
      by (simp add: handleKeyPress_def clearLastOutputOnEdit_def mc_def [symmetric])
  next
    case KeyLeft
    obtain m' where "moveCursorLeft mc = Some m'" "bufferValid m'" "popupKept mc m'"
      using moveCursorLeft_valid [OF bc] by blast
    then show ?thesis
      using KeyLeft oc
      by (simp add: handleKeyPress_def clearLastOutputOnEdit_def mc_def [symmetric]
          clearAutocomplete_valid clearAutocomplete_frame popupKept_def)
  next
    case KeyRight
    obtain m' where "moveCursorRight mc = Some m'" "bufferValid m'" "popupKept mc m'"
      using moveCursorRight_valid [OF bc] by blast
    then show ?thesis
      using KeyRight oc
      by (simp add: handleKeyPress_def clearLastOutputOnEdit_def mc_def [symmetric]
          clearAutocomplete_valid clearAutocomplete_frame popupKept_def)
  next
    case KeySpace
    obtain m2 where "Option.bind (insertRunes [0x20] mc) updateAutocomplete = Some m2"
        "modelValid m2" "lastOutput m2 = ''''"
      using edit_then_update_valid [where edit = "insertRunes [0x20]", OF vc oc
          insertRunes_valid [OF bc]]
      by blast
    then show ?thesis
      using KeySpace
      by (auto simp: handleKeyPress_def clearLastOutputOnEdit_def insertCharacter_def
          mc_def [symmetric] split: Option.bind_splits)
  next
    case KeyRunes
    obtain m2 where "Option.bind (insertRunes (Runes k) mc) updateAutocomplete = Some m2"
        "modelValid m2" "lastOutput m2 = ''''"
      using edit_then_update_valid [where edit = "insertRunes (Runes k)", OF vc oc
          insertRunes_valid [OF bc]]
      by blast
    then show ?thesis
      using KeyRunes
      by (auto simp: handleKeyPress_def clearLastOutputOnEdit_def
          mc_def [symmetric] split: Option.bind_splits)
  next
    case KeyOther
    then show ?thesis using assms by (simp add: handleKeyPress_def clearLastOutputOnEdit_def)
  qed
qed

lemma NewPromptModel_valid: "modelValid (NewPromptModel cfg)"
  by (simp add: NewPromptModel_def modelValid_def bufferValid_def popupValid_def)

lemma Update_valid:
  assumes "modelValid m"
  shows "\<exists>m' cmd. Update msg m = Some (m', cmd) \<and> modelValid m'"
proof (cases msg)
  case (Key k)
  then show ?thesis using handleKeyPress_valid [OF assms, of k] by (auto simp: Update_def)
next
  case OtherMsg
  then show ?thesis using assms by (simp add: Update_def)
qed

lemma run_valid: "modelValid m \<Longrightarrow> \<exists>m'. run msgs m = Some m' \<and> modelValid m'"
proof (induction msgs arbitrary: m)
  case Nil
  then show ?case by simp
next
  case (Cons msg msgs)
  obtain m1 cmd where m1: "Update msg m = Some (m1, cmd)" "modelValid m1"
    using Update_valid [OF Cons.prems] by blast
  then show ?case using Cons.IH [OF m1(2)] by simp
qed

subsection \<open>Scrolling\<close>

lemma wrap64_id: "- (2 ^ 63) \<le> x \<Longrightarrow> x < 2 ^ 63 \<Longrightarrow> wrap64 x = x"
  by (simp add: wrap64_def)

lemma navigateAutocompleteUp_frame:
  "config (navigateAutocompleteUp m) = config m \<and> suggestions (navigateAutocompleteUp m) = suggestions m"
  by (simp add: navigateAutocompleteUp_def Let_def)

lemma navigateAutocompleteDown_frame:
  "config (navigateAutocompleteDown m) = config m \<and> suggestions (navigateAutocompleteDown m) = suggestions m"
  by (simp add: navigateAutocompleteDown_def Let_def)

lemma navigateAutocompleteUp_coupled:
  assumes "scrollCoupled m" and "heightInRange m"
  shows "scrollCoupled (navigateAutocompleteUp m)"
proof -
  have w: "wrap64 (int (length (suggestions m)) - PopupMaxHeight (config m))
      = int (length (suggestions m)) - PopupMaxHeight (config m)"
    using assms(2) by (intro wrap64_id) (simp_all add: heightInRange_def)
  show ?thesis
    using assms
    by (auto simp: navigateAutocompleteUp_def Let_def w scrollCoupled_def heightInRange_def)
qed

lemma navigateAutocompleteDown_coupled:
  assumes "scrollCoupled m" and "heightInRange m"
  shows "scrollCoupled (navigateAutocompleteDown m)"
proof -
  define h where "h = PopupMaxHeight (config m)"
  define n where "n = int (length (suggestions m))"
  define sel where "sel = selectedSuggestionIndex m"
  define off where "off = popupScrollOffset m"
  have inv: "0 \<le> off" "off \<le> sel" "sel < n" "sel < off + h" "off \<le> max 0 (n - h)"
    using assms(1) by (simp_all add: scrollCoupled_def h_def n_def sel_def off_def)
  have rng: "0 < h" "h < 2 ^ 63" "n < 2 ^ 63"
    using assms(2) by (simp_all add: heightInRange_def h_def n_def)
  have w1: "wrap64 (off + h) = off + h"
    using inv rng by (intro wrap64_id) auto
  have w2: "wrap64 (sel + 1 - h) = sel + 1 - h"
    using inv rng by (intro wrap64_id) auto
  have w3: "wrap64 (sel + 1 - h + 1) = sel + 1 - h + 1"
    using inv rng by (intro wrap64_id) auto
  have eq: "navigateAutocompleteDown m =
      (if showPopup m \<and> length (suggestions m) > 0 then
         if sel + 1 \<ge> n then m\<lparr>selectedSuggestionIndex := 0, popupScrollOffset := 0\<rparr>
         else if sel + 1 \<ge> off + h then
           m\<lparr>selectedSuggestionIndex := sel + 1, popupScrollOffset := sel + 1 - h + 1\<rparr>
         else m\<lparr>selectedSuggestionIndex := sel + 1\<rparr>
       else m)"
    unfolding navigateAutocompleteDown_def Let_def h_def [symmetric] n_def [symmetric]
      sel_def [symmetric] off_def [symmetric] w1 w2 w3
    by (rule refl)
  show ?thesis
    unfolding eq using inv rng assms(1)
    by (auto simp: scrollCoupled_def h_def [symmetric] n_def [symmetric]
        sel_def [symmetric] off_def [symmetric])
qed

lemma navigate_coupled:
  "scrollCoupled m \<Longrightarrow> heightInRange m \<Longrightarrow>
     config (navigate ns m) = config m \<and> scrollCoupled (navigate ns m)"
proof (induction ns m rule: navigate.induct)
  case (1 m)
  then show ?case by simp
next
  case (2 ns m)
  have "scrollCoupled (navigateAutocompleteUp m)"
    using 2(2,3) by (rule navigateAutocompleteUp_coupled)
  moreover have "heightInRange (navigateAutocompleteUp m)"
    using 2(3) by (simp add: heightInRange_def navigateAutocompleteUp_frame)
  ultimately show ?case using 2(1) by (simp add: navigateAutocompleteUp_frame)
next
  case (3 ns m)
  have "scrollCoupled (navigateAutocompleteDown m)"
    using 3(2,3) by (rule navigateAutocompleteDown_coupled)
  moreover have "heightInRange (navigateAutocompleteDown m)"
    using 3(3) by (simp add: heightInRange_def navigateAutocompleteDown_frame)
  ultimately show ?case using 3(1) by (simp add: navigateAutocompleteDown_frame)
qed


subsection \<open>The word run at the cursor\<close>

lemma wordRun_Suc:
  "c < length rs \<Longrightarrow>
     wordRun f rs (Suc c) = (if f (rs ! c) then wordRun f rs c @ [rs ! c] else [])"
  by (simp add: wordRun_def take_Suc_conv_app_nth)

lemma scanWordStart_run:
  "0 \<le> c \<Longrightarrow> c \<le> int (length rs) \<Longrightarrow>
     scanWordStart f rs c = Some (c - int (length (wordRun f rs (nat c))))"
proof (induction f rs c rule: scanWordStart.induct)
  case (1 f rs c)
  show ?case
  proof (cases "c > 0")
    case False
    then have "c = 0" using "1.prems" by simp
    then show ?thesis by (subst scanWordStart.simps) (simp add: wordRun_def)
  next
    case True
    define n where "n = nat (c - 1)"
    have nc: "nat c = Suc n" "nat (c - 1) = n" "n < length rs"
      using True "1.prems" by (simp_all add: n_def)
    have ix: "index rs (c - 1) = Some (rs ! n)"
      using True "1.prems" by (simp add: n_def)
    show ?thesis
    proof (cases "f (rs ! n)")
      case False
      then show ?thesis
        using True ix nc by (subst scanWordStart.simps) (simp add: wordRun_Suc)
    next
      case fr: True
      have "scanWordStart f rs (c - 1) = Some (c - 1 - int (length (wordRun f rs (nat (c - 1)))))"
        using True ix fr "1.prems" by (intro "1.IH") auto
      then show ?thesis
        using True ix fr nc by (subst scanWordStart.simps) (simp add: wordRun_Suc)
    qed
  qed
qed

lemma length_wordRun_le: "c \<le> length rs \<Longrightarrow> length (wordRun f rs c) \<le> c"
proof -
  assume "c \<le> length rs"
  have "length (takeWhile f (rev (take c rs))) \<le> length (rev (take c rs))"
    by (rule length_takeWhile_le)
  then show ?thesis using \<open>c \<le> length rs\<close> by (simp add: wordRun_def)
qed

lemma wordRun_eq_Nil:
  "0 < c \<Longrightarrow> c \<le> length rs \<Longrightarrow> wordRun f rs c = [] \<longleftrightarrow> \<not> f (rs ! (c - 1))"
  by (cases c) (simp_all add: wordRun_Suc)

lemma suffix_takeWhile_rev:
  "drop (length ys - length (takeWhile f (rev ys))) ys = rev (takeWhile f (rev ys))"
proof -
  have "rev ys = takeWhile f (rev ys) @ dropWhile f (rev ys)" by simp
  then have "ys = rev (dropWhile f (rev ys)) @ rev (takeWhile f (rev ys))"
    by (metis rev_append rev_rev_ident)
  moreover have "length ys - length (takeWhile f (rev ys)) = length (rev (dropWhile f (rev ys)))"
    by (metis length_rev length_append add_diff_cancel_left' takeWhile_dropWhile_id)
  ultimately show ?thesis
    by (metis append_eq_conv_conj)
qed

lemma slice_wordRun:
  assumes "c \<le> length rs"
  shows "take (c - (c - length (wordRun f rs c))) (drop (c - length (wordRun f rs c)) rs)
         = wordRun f rs c"
proof -
  have le: "length (wordRun f rs c) \<le> c" using assms by (rule length_wordRun_le)
  have "drop (length (take c rs) - length (takeWhile f (rev (take c rs)))) (take c rs)
      = rev (takeWhile f (rev (take c rs)))"
    by (rule suffix_takeWhile_rev)
  then have "drop (c - length (wordRun f rs c)) (take c rs) = wordRun f rs c"
    using assms by (simp add: wordRun_def min_absorb2)
  then show ?thesis using le by (simp add: drop_take)
qed

lemma nat_one_plus_int: "nat (1 + int n) = Suc n"
  by arith

section \<open>Enter on a bare terminator\<close>

text \<open>
  C1, as the code has it. When the trimmed input is exactly \<open>;\<close>, the guard of
  \<^verbatim>\<open>handleEnter\<close> sends Enter to the branch that inserts a newline, whatever the
  completeness predicate returns. From a well-formed buffer \<^verbatim>\<open>insertNewline\<close> returns a
  model, in which the line of the cursor is split at the cursor and the blank lines at
  the end are cleaned up; \<^verbatim>\<open>handleEnter\<close> returns that model with the suggestions
  cleared. Nothing is executed, nothing is added to the history, and the last output is
  left as it is. The buffer is not reset.
\<close>

theorem handleEnter_bare_terminator:
  assumes "TrimSpace (getCurrentInput m) = '';''" and "bufferValid m"
  shows "\<exists>m1. insertNewline m = Some m1 \<and> handleEnter m = Some (clearAutocomplete m1)
           \<and> lines (clearAutocomplete m1) =
               cleanupLines
                 (take (nat (cursorRow m)) (lines m)
                  @ [take (nat (cursorCol m)) (lines m ! nat (cursorRow m)),
                     drop (nat (cursorCol m)) (lines m ! nat (cursorRow m))]
                  @ drop (nat (cursorRow m) + 1) (lines m))
           \<and> executeCalls (clearAutocomplete m1) = executeCalls m
           \<and> history (clearAutocomplete m1) = history m
           \<and> lastOutput (clearAutocomplete m1) = lastOutput m"
proof -
  obtain m1 where m1: "insertNewline m = Some m1" "popupKept m m1"
      "history m1 = history m" "executeCalls m1 = executeCalls m"
    using insertNewline_valid [OF assms(2)] by blast
  have "handleEnter m = Some (clearAutocomplete m1)"
    using assms(1) m1(1) by (simp add: handleEnter_def Let_def)
  moreover note insertNewline_lines [OF assms(2) m1(1)]
  ultimately show ?thesis using m1 by (simp add: clearAutocomplete_def popupKept_def)
qed

text \<open>The witness: a line \<open>;\<close> in a new prompt, the cursor behind it.\<close>

theorem handleEnter_bare_terminator_witness:
  "\<exists>m1. insertNewline (sampleModel ['';''] 0 1) = Some m1
     \<and> handleEnter (sampleModel ['';''] 0 1) = Some (clearAutocomplete m1)
     \<and> lines (clearAutocomplete m1) = cleanupLines ['';'', '''']
     \<and> executeCalls (clearAutocomplete m1) = []
     \<and> history (clearAutocomplete m1) = []
     \<and> lastOutput (clearAutocomplete m1) = ''''"
proof -
  have t: "TrimSpace (getCurrentInput (sampleModel ['';''] 0 1)) = '';''"
    by code_simp
  have v: "bufferValid (sampleModel ['';''] 0 1)"
    by (simp add: bufferValid_def sampleModel_def)
  show ?thesis
    using handleEnter_bare_terminator [OF t v]
    by (simp add: sampleModel_def NewPromptModel_def)
qed

text \<open>
  The claim as stated fails on \<open>;\<close> typed into a new prompt: the default predicate finds
  the input complete, its trimmed form is \<open>;\<close>, and Enter leaves two lines, \<open>;\<close> and an
  empty one, with the cursor on the second, where the claim has a single empty line and
  the cursor at the origin.
\<close>

theorem handleEnter_bare_terminator_not_reset:
  "map_option (IsCompleteFn sampleConfig \<circ> getCurrentInput)
     (run [typed [0x3B]] (NewPromptModel sampleConfig)) = Some True
   \<and> map_option (TrimSpace \<circ> getCurrentInput)
       (run [typed [0x3B]] (NewPromptModel sampleConfig)) = Some '';''
   \<and> map_option lines
       (run [typed [0x3B], pressed KeyEnter] (NewPromptModel sampleConfig))
       = Some ['';'', '''']
   \<and> map_option cursorRow
       (run [typed [0x3B], pressed KeyEnter] (NewPromptModel sampleConfig)) = Some 1
   \<and> map_option cursorCol
       (run [typed [0x3B], pressed KeyEnter] (NewPromptModel sampleConfig)) = Some 0"
  by code_simp

section \<open>The cursor column and the code points of the line\<close>

text \<open>
  C2 on the code. The claim bounds the column by the number of code points of the line of
  the cursor. \<^verbatim>\<open>moveCursorRight\<close> compares the column with \<^verbatim>\<open>len\<close> of the line, its
  number of bytes. After U+00E9 is typed into a new prompt the line holds two bytes and
  one code point, and the column is 1; the right arrow then moves the column to 2, beyond
  the one code point of the line.
\<close>

theorem cursorCol_beyond_code_points:
  "map_option lines (run [typed [0xE9]] (NewPromptModel sampleConfig))
     = Some [[CHR 0xC3, CHR 0xA9]]
   \<and> map_option cursorCol (run [typed [0xE9]] (NewPromptModel sampleConfig)) = Some 1
   \<and> map_option lines (run [typed [0xE9], pressed KeyRight] (NewPromptModel sampleConfig))
     = Some [[CHR 0xC3, CHR 0xA9]]
   \<and> map_option cursorRow (run [typed [0xE9], pressed KeyRight] (NewPromptModel sampleConfig))
     = Some 0
   \<and> map_option cursorCol (run [typed [0xE9], pressed KeyRight] (NewPromptModel sampleConfig))
     = Some 2
   \<and> runesOf [CHR 0xC3, CHR 0xA9] = [0xE9]"
  by code_simp

text \<open>
  What the code keeps instead, after every sequence of messages: the row is an index of
  the lines, and the column is at most the number of bytes of the line of the cursor.
\<close>

lemma cursor_within_bytes:
  "\<exists>m. run msgs (NewPromptModel cfg) = Some m
       \<and> 0 \<le> cursorRow m \<and> cursorRow m < int (length (lines m))
       \<and> 0 \<le> cursorCol m \<and> cursorCol m \<le> int (length (lines m ! nat (cursorRow m)))"
proof -
  obtain m where "run msgs (NewPromptModel cfg) = Some m" "modelValid m"
    using run_valid [OF NewPromptModel_valid] by blast
  then show ?thesis by (auto simp: modelValid_def bufferValid_def)
qed

section \<open>The fragment and the applied suggestion\<close>

text \<open>
  C3 on the code. The claim has the cursor at the end of the inserted text after a
  suggestion is applied. \<^verbatim>\<open>applyAutocomplete\<close> sets the column to the start of the
  fragment, a count of code points, plus \<^verbatim>\<open>len\<close> of the suggestion's text, a count of
  bytes. With \<open>a\<close> typed and the suggestion U+00E9 selected, Tab makes the line that one
  code point and sets the column to 2, where the inserted text ends at column 1.
\<close>

theorem applyAutocomplete_column_counts_bytes:
  "map_option showPopup (run [typed [0x61]] (NewPromptModel sampleConfig)) = Some True
   \<and> map_option (map Text \<circ> suggestions) (run [typed [0x61]] (NewPromptModel sampleConfig))
     = Some [[CHR 0xC3, CHR 0xA9]]
   \<and> map_option lines (run [typed [0x61], pressed KeyTab] (NewPromptModel sampleConfig))
     = Some [[CHR 0xC3, CHR 0xA9]]
   \<and> map_option cursorCol (run [typed [0x61], pressed KeyTab] (NewPromptModel sampleConfig))
     = Some 2
   \<and> runesOf [CHR 0xC3, CHR 0xA9] = [0xE9]"
  by code_simp

text \<open>
  The fragment, for a cursor on a line and a column that is not negative: it is empty
  exactly in the three cases of the claim, and otherwise it is the text of the word run
  that ends at the column.
\<close>

lemma currentWordFragment_run:
  assumes "0 \<le> cursorRow m" and "cursorRow m < int (length (lines m))" and "0 \<le> cursorCol m"
  shows "currentWordFragment f m =
     Some (if cursorCol m = 0
              \<or> cursorCol m > int (length (runesOf (lines m ! nat (cursorRow m))))
              \<or> \<not> f (runesOf (lines m ! nat (cursorRow m)) ! nat (cursorCol m - 1))
           then ''''
           else stringOf (wordRun f (runesOf (lines m ! nat (cursorRow m))) (nat (cursorCol m))))"
proof -
  define rs where "rs = runesOf (lines m ! nat (cursorRow m))"
  define c where "c = nat (cursorCol m)"
  have col: "cursorCol m = int c" using assms(3) by (simp add: c_def)
  have ix: "index (lines m) (cursorRow m) = Some (lines m ! nat (cursorRow m))"
    using assms by simp
  show ?thesis
  proof (cases "c = 0 \<or> c > length rs")
    case True
    then show ?thesis
      using ix assms by (auto simp: currentWordFragment_def Let_def rs_def [symmetric] col)
  next
    case False
    then have c: "0 < c" "c \<le> length rs" by simp_all
    have s: "scanWordStart f rs (int c) = Some (int c - int (length (wordRun f rs c)))"
      using scanWordStart_run [of "int c" rs f] c by simp
    have le: "length (wordRun f rs c) \<le> c" using c(2) by (rule length_wordRun_le)
    have r: "index rs (int c - 1) = Some (rs ! (c - 1))"
      using c by (simp add: nat_diff_distrib)
    show ?thesis
    proof (cases "f (rs ! (c - 1))")
      case False
      then show ?thesis
        using ix c s r assms
        by (simp add: currentWordFragment_def Let_def rs_def [symmetric] col nat_diff_distrib)
    next
      case True
      then have ne: "wordRun f rs c \<noteq> []" using c by (simp add: wordRun_eq_Nil)
      then have pos: "0 < length (wordRun f rs c)" by simp
      have sl: "slice rs (int c - int (length (wordRun f rs c))) (int c) = Some (wordRun f rs c)"
        using le c slice_wordRun [OF c(2), of f]
        by (simp add: slice_def nat_diff_distrib)
      show ?thesis
        using ix c s r True pos sl assms
        by (simp add: currentWordFragment_def Let_def rs_def [symmetric] col nat_diff_distrib)
    qed
  qed
qed

lemma currentWordFragment_empty_iff:
  assumes "0 \<le> cursorRow m" and "cursorRow m < int (length (lines m))" and "0 \<le> cursorCol m"
  shows "\<exists>word. currentWordFragment f m = Some word
     \<and> (word = '''' \<longleftrightarrow>
          cursorCol m = 0
          \<or> cursorCol m > int (length (runesOf (lines m ! nat (cursorRow m))))
          \<or> \<not> f (runesOf (lines m ! nat (cursorRow m)) ! nat (cursorCol m - 1)))"
proof -
  define rs where "rs = runesOf (lines m ! nat (cursorRow m))"
  define c where "c = nat (cursorCol m)"
  have "0 < c \<Longrightarrow> c \<le> length rs \<Longrightarrow> f (rs ! (c - 1)) \<Longrightarrow> wordRun f rs c \<noteq> []"
    by (simp add: wordRun_eq_Nil)
  moreover have "nat (cursorCol m - 1) = c - 1" by (simp add: c_def nat_diff_distrib)
  moreover have "cursorCol m = int c" using assms(3) by (simp add: c_def)
  ultimately show ?thesis
    using currentWordFragment_run [OF assms, of f]
    by (auto simp: rs_def [symmetric])
qed

text \<open>
  Applying the selected suggestion, for a cursor within the runes of its line: the word
  run that ends at the column is replaced by the text of the suggestion, and the column
  becomes the start of the run, in runes, plus the length of the text, in bytes.
\<close>

lemma applyAutocomplete_replaces_run:
  assumes "showPopup m" and "suggestions m \<noteq> []"
    and "0 \<le> selectedSuggestionIndex m"
    and "selectedSuggestionIndex m < int (length (suggestions m))"
    and "0 \<le> cursorRow m" and "cursorRow m < int (length (lines m))"
    and "0 \<le> cursorCol m"
    and "cursorCol m \<le> int (length (runesOf (lines m ! nat (cursorRow m))))"
  shows "applyAutocomplete m =
     Some (clearAutocomplete
       (m\<lparr>lines := (lines m)[nat (cursorRow m) :=
            stringOf (take (nat (cursorCol m)
                  - length (wordRun (IsWordCharFn (config m))
                      (runesOf (lines m ! nat (cursorRow m))) (nat (cursorCol m))))
                (runesOf (lines m ! nat (cursorRow m))))
            @ Text (suggestions m ! nat (selectedSuggestionIndex m))
            @ stringOf (drop (nat (cursorCol m)) (runesOf (lines m ! nat (cursorRow m))))],
          cursorCol :=
            cursorCol m
            - int (length (wordRun (IsWordCharFn (config m))
                (runesOf (lines m ! nat (cursorRow m))) (nat (cursorCol m))))
            + int (length (Text (suggestions m ! nat (selectedSuggestionIndex m))))\<rparr>))"
proof -
  define rs where "rs = runesOf (lines m ! nat (cursorRow m))"
  define c where "c = nat (cursorCol m)"
  define k where "k = length (wordRun (IsWordCharFn (config m)) rs c)"
  have col: "cursorCol m = int c" using assms(7) by (simp add: c_def)
  have c: "c \<le> length rs" using assms(8) by (simp add: c_def rs_def)
  have k: "k \<le> c" unfolding k_def using c by (rule length_wordRun_le)
  have s: "scanWordStart (IsWordCharFn (config m)) rs (int c) = Some (int c - int k)"
    using scanWordStart_run [of "int c" rs "IsWordCharFn (config m)"] c by (simp add: k_def)
  have n: "nat (int c - int k) = c - k" "\<not> int c - int k < 0" "int c - int k \<le> int (length rs)"
    using k c by simp_all
  have suffix: "(if int c < int (length rs) then sliceFrom rs (int c) else Some [])
      = Some (drop c rs)"
    using c by simp
  show ?thesis
    using assms(1-6) s n suffix
    by (simp add: applyAutocomplete_def Let_def rs_def [symmetric] col k_def [symmetric])
qed

section \<open>The update of the suggestions\<close>

text \<open>
  C4. When the fragment at the cursor is not empty, \<^verbatim>\<open>updateAutocomplete\<close> does not
  clear. If the fragment differs from \<^verbatim>\<open>lastSuggestedWord\<close>, the selected index and the
  scroll offset are set to 0, the provider is called once with the text before the cursor
  and the fragment, its list is stored as it is, the popup is shown exactly when the list
  is not empty, and the fragment is remembered (without a provider the list is empty
  and nothing is called). If the fragment is the remembered one, the popup is hidden when
  there are no suggestions, and otherwise the model is returned as it is, with no call
  of the provider.
\<close>

theorem updateAutocomplete_fragment:
  assumes "currentWordFragment (IsWordCharFn (config m)) m = Some word" and "word \<noteq> ''''"
  shows "updateAutocomplete m =
     Some (if word \<noteq> lastSuggestedWord m then
             (case AutoCompleteFn (config m) of
                Some acFn \<Rightarrow>
                  m\<lparr>selectedSuggestionIndex := 0, popupScrollOffset := 0,
                    suggestions := acFn (getTextBeforeCursor m) word,
                    autoCompleteCalls := autoCompleteCalls m @ [(getTextBeforeCursor m, word)],
                    showPopup := (length (acFn (getTextBeforeCursor m) word) > 0),
                    lastSuggestedWord := word\<rparr>
              | None \<Rightarrow>
                  m\<lparr>selectedSuggestionIndex := 0, popupScrollOffset := 0,
                    suggestions := [], showPopup := False, lastSuggestedWord := word\<rparr>)
           else if length (suggestions m) = 0 then m\<lparr>showPopup := False\<rparr>
           else m)"
proof -
  have clear: "updateClear word m = Some False"
    using assms by (rule updateClear_nonempty)
  have before: "getTextBeforeCursor (m\<lparr>selectedSuggestionIndex := 0, popupScrollOffset := 0\<rparr>)
      = getTextBeforeCursor m"
    by (simp add: getTextBeforeCursor_def)
  show ?thesis
    using assms(1) clear before
    by (cases "AutoCompleteFn (config m)") (simp_all add: updateAutocomplete_def Let_def)
qed

text \<open>
  The witness: \<open>SELECT FR\<close> with the cursor at the end and nothing remembered; the fragment
  is \<open>FR\<close> and the provider is called with \<open>SELECT FR\<close> and \<open>FR\<close>.
\<close>

theorem updateAutocomplete_fragment_witness:
  "map_option lastSuggestedWord (updateAutocomplete (sampleModel [''SELECT FR''] 0 9))
     = Some ''FR''
   \<and> map_option autoCompleteCalls (updateAutocomplete (sampleModel [''SELECT FR''] 0 9))
     = Some [(''SELECT FR'', ''FR'')]
   \<and> map_option showPopup (updateAutocomplete (sampleModel [''SELECT FR''] 0 9))
     = Some True"
proof -
  have w: "currentWordFragment (IsWordCharFn (config (sampleModel [''SELECT FR''] 0 9)))
      (sampleModel [''SELECT FR''] 0 9) = Some ''FR''"
    by code_simp
  have b: "getTextBeforeCursor (sampleModel [''SELECT FR''] 0 9) = ''SELECT FR''"
    by code_simp
  have ne: "''FR'' \<noteq> ''''" by simp
  have f: "AutoCompleteFn (config (sampleModel [''SELECT FR''] 0 9)) =
      Some (\<lambda>textBefore word. [\<lparr>Text = [CHR 0xC3, CHR 0xA9], Description = ''''\<rparr>])"
    "lastSuggestedWord (sampleModel [''SELECT FR''] 0 9) = ''''"
    "autoCompleteCalls (sampleModel [''SELECT FR''] 0 9) = []"
    by (simp_all add: sampleModel_def NewPromptModel_def sampleConfig_def)
  show ?thesis
    using updateAutocomplete_fragment [OF w ne] by (simp add: b f)
qed

section \<open>The scroll window follows the selection\<close>

text \<open>
  C5. Start from a non-empty suggestion list, a positive window height, and the selected
  index and the scroll offset both 0. After any sequence of calls of
  \<^verbatim>\<open>navigateAutocompleteUp\<close> and \<^verbatim>\<open>navigateAutocompleteDown\<close> the selected index is inside
  the window: the offset is at most the index, and the index is below the offset plus the
  height. The length of the list and the height are values of a 64-bit \<^verbatim>\<open>int\<close>; within
  that range the sums and differences of the code do not wrap.
\<close>

theorem navigate_scroll_follows_selection:
  assumes "suggestions m \<noteq> []" and "int (length (suggestions m)) < 2 ^ 63"
    and "0 < PopupMaxHeight (config m)" and "PopupMaxHeight (config m) < 2 ^ 63"
    and "selectedSuggestionIndex m = 0" and "popupScrollOffset m = 0"
  shows "popupScrollOffset (navigate ns m) \<le> selectedSuggestionIndex (navigate ns m)
         \<and> selectedSuggestionIndex (navigate ns m)
             < popupScrollOffset (navigate ns m) + PopupMaxHeight (config m)"
proof -
  have "scrollCoupled m" using assms by (simp add: scrollCoupled_def)
  moreover have "heightInRange m" using assms by (simp add: heightInRange_def)
  ultimately have "config (navigate ns m) = config m \<and> scrollCoupled (navigate ns m)"
    by (rule navigate_coupled)
  then have c: "config (navigate ns m) = config m" and s: "scrollCoupled (navigate ns m)"
    by simp_all
  show ?thesis using s by (simp add: scrollCoupled_def c)
qed

text \<open>
  The witness: eight suggestions in a window of six, the popup shown; seven steps down
  and one step up.
\<close>

theorem navigate_scroll_follows_selection_witness:
  "popupScrollOffset
     (navigate [NavigateDown, NavigateDown, NavigateDown, NavigateDown, NavigateDown,
                NavigateDown, NavigateDown, NavigateUp]
        ((sampleModel [''a''] 0 1)
           \<lparr>suggestions := replicate 8 \<lparr>Text = ''x'', Description = ''''\<rparr>, showPopup := True\<rparr>))
   \<le> selectedSuggestionIndex
     (navigate [NavigateDown, NavigateDown, NavigateDown, NavigateDown, NavigateDown,
                NavigateDown, NavigateDown, NavigateUp]
        ((sampleModel [''a''] 0 1)
           \<lparr>suggestions := replicate 8 \<lparr>Text = ''x'', Description = ''''\<rparr>, showPopup := True\<rparr>))
   \<and> selectedSuggestionIndex
     (navigate [NavigateDown, NavigateDown, NavigateDown, NavigateDown, NavigateDown,
                NavigateDown, NavigateDown, NavigateUp]
        ((sampleModel [''a''] 0 1)
           \<lparr>suggestions := replicate 8 \<lparr>Text = ''x'', Description = ''''\<rparr>, showPopup := True\<rparr>))
   < popupScrollOffset
     (navigate [NavigateDown, NavigateDown, NavigateDown, NavigateDown, NavigateDown,
                NavigateDown, NavigateDown, NavigateUp]
        ((sampleModel [''a''] 0 1)
           \<lparr>suggestions := replicate 8 \<lparr>Text = ''x'', Description = ''''\<rparr>, showPopup := True\<rparr>))
     + 6"
proof -
  have c: "PopupMaxHeight (config ((sampleModel [''a''] 0 1)
      \<lparr>suggestions := replicate 8 \<lparr>Text = ''x'', Description = ''''\<rparr>, showPopup := True\<rparr>)) = 6"
    by (simp add: sampleModel_def NewPromptModel_def sampleConfig_def)
  show ?thesis
    using navigate_scroll_follows_selection [of
        "(sampleModel [''a''] 0 1)
           \<lparr>suggestions := replicate 8 \<lparr>Text = ''x'', Description = ''''\<rparr>, showPopup := True\<rparr>"
        "[NavigateDown, NavigateDown, NavigateDown, NavigateDown, NavigateDown,
          NavigateDown, NavigateDown, NavigateUp]"]
    unfolding c
    by (simp add: sampleModel_def NewPromptModel_def)
qed

section \<open>Enter on a complete input\<close>

text \<open>
  C6. When the completeness predicate holds of the joined input and the trimmed input is
  not \<open>;\<close>, \<^verbatim>\<open>handleEnter\<close> returns a model in which the execution callback has been called
  once more, with exactly the joined input, and its result is the last output (without a
  callback nothing is called and the fixed text is the last output); the input is
  appended to the history exactly when its trimmed form is not empty; the lines are a
  single empty line with the cursor at the origin; the history index is \<open>-1\<close>; and the
  suggestions are cleared.
\<close>

theorem handleEnter_submit:
  assumes "IsCompleteFn (config m) (getCurrentInput m)"
    and "TrimSpace (getCurrentInput m) \<noteq> '';''"
  shows "\<exists>m'. handleEnter m = Some m'
          \<and> (case ExecuteFn (config m) of
                Some execFn \<Rightarrow>
                  executeCalls m' = executeCalls m @ [getCurrentInput m]
                  \<and> lastOutput m' = executingOutput (execFn (getCurrentInput m))
              | None \<Rightarrow> executeCalls m' = executeCalls m \<and> lastOutput m' = noExecuteFnOutput)
          \<and> history m' =
               (if TrimSpace (getCurrentInput m) \<noteq> '''' then history m @ [getCurrentInput m]
                else history m)
          \<and> lines m' = [''''] \<and> cursorRow m' = 0 \<and> cursorCol m' = 0
          \<and> historyIndex m' = -1
          \<and> suggestions m' = [] \<and> \<not> showPopup m' \<and> selectedSuggestionIndex m' = 0
          \<and> lastSuggestedWord m' = '''' \<and> popupScrollOffset m' = 0"
  using assms
  by (cases "ExecuteFn (config m)") (simp_all add: handleEnter_def Let_def clearAutocomplete_def)

text \<open>
  The witness: \<open>SELECT 1;\<close> in a new prompt. The callback of the sample configuration
  returns its input.
\<close>

theorem handleEnter_submit_witness:
  "\<exists>m'. handleEnter (sampleModel [''SELECT 1;''] 0 9) = Some m'
     \<and> executeCalls m' = [''SELECT 1;'']
     \<and> lastOutput m' = executingOutput ''SELECT 1;''
     \<and> history m' = [''SELECT 1;'']
     \<and> lines m' = [''''] \<and> cursorRow m' = 0 \<and> cursorCol m' = 0 \<and> historyIndex m' = -1
     \<and> suggestions m' = [] \<and> \<not> showPopup m'"
proof -
  have i: "getCurrentInput (sampleModel [''SELECT 1;''] 0 9) = ''SELECT 1;''"
    by code_simp
  have c: "IsCompleteFn (config (sampleModel [''SELECT 1;''] 0 9))
      (getCurrentInput (sampleModel [''SELECT 1;''] 0 9))"
    by code_simp
  have t: "TrimSpace ''SELECT 1;'' = ''SELECT 1;''"
    by code_simp
  have n: "TrimSpace (getCurrentInput (sampleModel [''SELECT 1;''] 0 9)) \<noteq> '';''"
    by (simp add: i t)
  have f: "ExecuteFn (config (sampleModel [''SELECT 1;''] 0 9)) = Some (\<lambda>input. input)"
    "executeCalls (sampleModel [''SELECT 1;''] 0 9) = []"
    "history (sampleModel [''SELECT 1;''] 0 9) = []"
    by (simp_all add: sampleModel_def NewPromptModel_def sampleConfig_def)
  show ?thesis
    using handleEnter_submit [OF c n] by (auto simp: i t f)
qed

section \<open>Backspace\<close>

text \<open>
  C7 on the code. The claim has \<^verbatim>\<open>deleteBeforeCursor\<close> remove the code point left of the
  cursor when the column is positive. The code removes the byte at offset column minus
  one. After U+00E9 and \<open>a\<close> are typed, the line is the three bytes C3 A9 61 and the column
  is 2, behind \<open>a\<close>; \<^verbatim>\<open>deleteBeforeCursor\<close> removes the byte A9: \<open>a\<close> is still there, and
  what is left of U+00E9 decodes to the replacement character.
\<close>

theorem deleteBeforeCursor_removes_a_byte:
  "map_option lines (run [typed [0xE9, 0x61]] (NewPromptModel sampleConfig))
     = Some [[CHR 0xC3, CHR 0xA9, CHR 0x61]]
   \<and> map_option cursorCol (run [typed [0xE9, 0x61]] (NewPromptModel sampleConfig)) = Some 2
   \<and> runesOf [CHR 0xC3, CHR 0xA9, CHR 0x61] = [0xE9, 0x61]
   \<and> map_option lines
       (Option.bind (run [typed [0xE9, 0x61]] (NewPromptModel sampleConfig)) deleteBeforeCursor)
     = Some [[CHR 0xC3, CHR 0x61]]
   \<and> map_option cursorCol
       (Option.bind (run [typed [0xE9, 0x61]] (NewPromptModel sampleConfig)) deleteBeforeCursor)
     = Some 1
   \<and> runesOf [CHR 0xC3, CHR 0x61] = [RuneError, 0x61]"
  by code_simp

text \<open>
  What the code does, from a well-formed buffer: with a positive column it removes the
  byte before the column; at column 0 of a later row it appends the line to the one
  above, removes it from the lines, and puts the cursor on the row above at the byte
  length that row had; at the origin it changes nothing.
\<close>

lemma deleteBeforeCursor_bytes:
  assumes "bufferValid m"
  shows "deleteBeforeCursor m =
     Some (if cursorCol m > 0 then
             m\<lparr>lines := (lines m)[nat (cursorRow m) :=
                    take (nat (cursorCol m) - 1) (lines m ! nat (cursorRow m))
                    @ drop (nat (cursorCol m)) (lines m ! nat (cursorRow m))],
               cursorCol := cursorCol m - 1\<rparr>
           else if cursorRow m > 0 then
             m\<lparr>lines := take (nat (cursorRow m) - 1) (lines m)
                    @ [lines m ! (nat (cursorRow m) - 1) @ lines m ! nat (cursorRow m)]
                    @ drop (nat (cursorRow m) + 1) (lines m),
               cursorRow := cursorRow m - 1,
               cursorCol := int (length (lines m ! (nat (cursorRow m) - 1)))\<rparr>
           else m)"
proof -
  obtain i c where ic: "cursorRow m = int i" "i < length (lines m)"
      "cursorCol m = int c" "c \<le> length (lines m ! i)"
    using assms by (rule bufferValidE)
  show ?thesis
  proof (cases c)
    case (Suc c')
    then show ?thesis
      using ic by (simp add: deleteBeforeCursor_def nat_one_plus_int)
  next
    case 0
    show ?thesis
    proof (cases i)
      case 0
      then show ?thesis
        using ic \<open>c = 0\<close> by (simp add: deleteBeforeCursor_def)
    next
      case (Suc i')
      have "take (Suc i') ((lines m)[i' := lines m ! i' @ lines m ! Suc i'])
          = take i' (lines m) @ [lines m ! i' @ lines m ! Suc i']"
        using ic Suc by (simp add: take_Suc_conv_app_nth)
      then show ?thesis
        using ic \<open>c = 0\<close> Suc
        by (simp add: deleteBeforeCursor_def Let_def nat_add_distrib nat_one_plus_int)
    qed
  qed
qed

section \<open>The buffer is never empty\<close>

text \<open>
  C8. Whatever sequence of messages is delivered to a new prompt, no operation panics,
  and the model that results holds at least one line. The sequence is arbitrary, so this
  holds after every message of it.
\<close>

theorem lines_never_empty:
  "\<exists>m. run msgs (NewPromptModel cfg) = Some m \<and> length (lines m) \<ge> 1"
proof -
  obtain m where m: "run msgs (NewPromptModel cfg) = Some m" "modelValid m"
    using run_valid [OF NewPromptModel_valid] by blast
  then have "0 < length (lines m)" by (auto simp: modelValid_def bufferValid_def)
  then have "length (lines m) \<ge> 1" by linarith
  then show ?thesis using m(1) by blast
qed

text \<open>
  The witness: \<open>a\<close>, Enter, Backspace, Backspace, and a Backspace in the empty buffer.
\<close>

theorem lines_never_empty_witness:
  "\<exists>m. run [typed [0x61], pressed KeyEnter, pressed KeyBackspace, pressed KeyBackspace,
            pressed KeyBackspace] (NewPromptModel sampleConfig) = Some m
       \<and> length (lines m) \<ge> 1"
  by (rule lines_never_empty)

section \<open>The last output and the keys that change the buffer\<close>




section \<open>Control characters are not inserted\<close>

text \<open>
  C10. When every rune of the slice is a control character (below U+0020),
  \<^verbatim>\<open>insertRunes\<close> returns before it touches the model: no text is inserted, the cursor
  stays, and the history index keeps its value, also while a history entry is browsed.
\<close>

theorem insertRunes_control_unchanged:
  assumes "\<forall>r \<in> set runes. r < 0x20"
  shows "insertRunes runes m = Some m"
proof -
  have "filter (\<lambda>r. r \<ge> 0x20) runes = []"
    using assms by (auto simp: filter_empty_conv)
  then show ?thesis by (simp add: insertRunes_def)
qed

text \<open>The witness: bell and escape, typed while the newest history entry is browsed.\<close>

theorem insertRunes_control_unchanged_witness:
  "insertRunes [0x07, 0x1B]
     ((sampleModel [''a;''] 0 2)\<lparr>history := [''a;''], historyIndex := 0\<rparr>)
   = Some ((sampleModel [''a;''] 0 2)\<lparr>history := [''a;''], historyIndex := 0\<rparr>)"
  using insertRunes_control_unchanged [of "[0x07, 0x1B]"
      "(sampleModel [''a;''] 0 2)\<lparr>history := [''a;''], historyIndex := 0\<rparr>"]
  by simp

end
